theory Spec2Isabelle
  imports Complex_Main
begin

section \<open>Queue (module/music_player/core/queue.py)\<close>

text \<open>
  The dataclass \<^verbatim>\<open>Song\<close>. The field \<^verbatim>\<open>id\<close> is called \<open>sid\<close> here, since \<open>id\<close> is the
  identity function of HOL.
\<close>

record song =
  sid :: string
  title :: string
  url :: string
  duration :: int
  uploader :: string
  uploader_url :: string
  thumbnail :: string
  requester_id :: "int option"
  cached_path :: "string option"

text \<open>
  The class \<^verbatim>\<open>MusicQueue\<close>: the fields \<^verbatim>\<open>_queue\<close>, \<^verbatim>\<open>_current_index\<close> and \<^verbatim>\<open>_loop\<close>.
  The lock only serialises the coroutines; every method is modelled as one atomic step
  that returns its result together with the updated queue.
\<close>

record music_queue =
  queue :: "song list"
  current_index :: int
  loop :: bool

definition init_queue :: music_queue where
  "init_queue = \<lparr>queue = [], current_index = -1, loop = False\<rparr>"

definition set_loop :: "music_queue \<Rightarrow> bool \<Rightarrow> music_queue" where
  "set_loop q v = q\<lparr>loop := v\<rparr>"

definition size_of :: "music_queue \<Rightarrow> int" where
  "size_of q = int (length (queue q))"

text \<open>\<^verbatim>\<open>current_song\<close>: the list is only read after the range check.\<close>

definition current_song :: "music_queue \<Rightarrow> song option" where
  "current_song q =
     (if current_index q < 0 \<or> current_index q \<ge> int (length (queue q)) then None
      else Some (queue q ! nat (current_index q)))"

definition queue_add :: "music_queue \<Rightarrow> song \<Rightarrow> song \<times> music_queue" where
  "queue_add q s =
     (let q1 = q\<lparr>queue := queue q @ [s]\<rparr>;
          q2 = (if length (queue q1) = 1 then q1\<lparr>current_index := 0\<rparr> else q1)
      in (s, q2))"

definition queue_add_many :: "music_queue \<Rightarrow> song list \<Rightarrow> song list \<times> music_queue" where
  "queue_add_many q songs =
     (let first_add = (length (queue q) = 0);
          q1 = q\<lparr>queue := queue q @ songs\<rparr>;
          q2 = (if first_add \<and> length (queue q1) > 0 then q1\<lparr>current_index := 0\<rparr> else q1)
      in (songs, q2))"

text \<open>\<^verbatim>\<open>list.pop(i)\<close> for an index in range.\<close>

definition pop_at :: "'a list \<Rightarrow> nat \<Rightarrow> 'a list" where
  "pop_at xs i = take i xs @ drop (Suc i) xs"

text \<open>The \<^verbatim>\<open>enumerate\<close> loop of \<^verbatim>\<open>remove\<close>: the first position whose song has the id.\<close>

fun find_song :: "string \<Rightarrow> song list \<Rightarrow> nat \<Rightarrow> nat option" where
  "find_song song_id [] i = None"
| "find_song song_id (s # ss) i =
     (if sid s = song_id then Some i else find_song song_id ss (Suc i))"

definition queue_remove :: "music_queue \<Rightarrow> string \<Rightarrow> song option \<times> music_queue" where
  "queue_remove q song_id =
     (case find_song song_id (queue q) 0 of
        None \<Rightarrow> (None, q)
      | Some i \<Rightarrow>
          (let removed = queue q ! i;
               q1 = q\<lparr>queue := pop_at (queue q) i\<rparr>;
               q2 = (if length (queue q1) = 0 then q1\<lparr>current_index := -1\<rparr>
                     else if int i < current_index q1
                       then q1\<lparr>current_index := current_index q1 - 1\<rparr>
                     else if int i = current_index q1
                       then (if current_index q1 \<ge> int (length (queue q1))
                             then q1\<lparr>current_index := int (length (queue q1)) - 1\<rparr>
                             else q1)
                     else q1)
           in (Some removed, q2)))"

definition queue_remove_by_index :: "music_queue \<Rightarrow> int \<Rightarrow> song option \<times> music_queue" where
  "queue_remove_by_index q index =
     (let pos = index - 1 in
      if pos < 0 \<or> pos \<ge> int (length (queue q)) then (None, q)
      else
        (let removed = queue q ! nat pos;
             q1 = q\<lparr>queue := pop_at (queue q) (nat pos)\<rparr>;
             q2 = (if length (queue q1) = 0 then q1\<lparr>current_index := -1\<rparr>
                   else if pos < current_index q1
                     then q1\<lparr>current_index := current_index q1 - 1\<rparr>
                   else if pos = current_index q1
                     then (if current_index q1 \<ge> int (length (queue q1))
                           then q1\<lparr>current_index := int (length (queue q1)) - 1\<rparr>
                           else q1)
                   else q1)
         in (Some removed, q2)))"

definition queue_clear :: "music_queue \<Rightarrow> int \<times> music_queue" where
  "queue_clear q = (int (length (queue q)), q\<lparr>queue := [], current_index := -1\<rparr>)"

text \<open>
  \<^verbatim>\<open>next\<close> and \<^verbatim>\<open>previous\<close>. Python's \<^verbatim>\<open>%\<close> with a positive right operand is the
  \<open>mod\<close> of \<open>int\<close>: the result lies in \<open>[0, len)\<close> also for a negative left operand.
\<close>

definition queue_next :: "music_queue \<Rightarrow> song option \<times> music_queue" where
  "queue_next q =
     (if length (queue q) = 0 then (None, q)
      else if loop q then
        (let q1 = q\<lparr>current_index := (current_index q + 1) mod int (length (queue q))\<rparr>
         in (current_song q1, q1))
      else if current_index q + 1 \<ge> int (length (queue q)) then (None, q)
      else (let q1 = q\<lparr>current_index := current_index q + 1\<rparr> in (current_song q1, q1)))"

definition queue_previous :: "music_queue \<Rightarrow> song option \<times> music_queue" where
  "queue_previous q =
     (if length (queue q) = 0 then (None, q)
      else if loop q then
        (let q1 = q\<lparr>current_index := (current_index q - 1) mod int (length (queue q))\<rparr>
         in (current_song q1, q1))
      else if current_index q \<le> 0 then (None, q)
      else (let q1 = q\<lparr>current_index := current_index q - 1\<rparr> in (current_song q1, q1)))"

definition jump_to :: "music_queue \<Rightarrow> int \<Rightarrow> song option \<times> music_queue" where
  "jump_to q index =
     (if index < 0 \<or> index \<ge> int (length (queue q)) then (None, q)
      else (let q1 = q\<lparr>current_index := index\<rparr> in (current_song q1, q1)))"

definition has_next :: "music_queue \<Rightarrow> bool" where
  "has_next q =
     (if length (queue q) = 0 then False
      else if loop q then length (queue q) > 1
      else current_index q + 1 < int (length (queue q)))"

definition has_previous :: "music_queue \<Rightarrow> bool" where
  "has_previous q =
     (if length (queue q) = 0 then False
      else if loop q then length (queue q) > 1
      else current_index q > 0)"

text \<open>
  The invariant of the data model: the cursor is \<open>-1\<close> exactly when the queue is empty,
  and inside \<open>[0, length)\<close> otherwise.
\<close>

definition queue_inv :: "music_queue \<Rightarrow> bool" where
  "queue_inv q =
     (if queue q = [] then current_index q = -1
      else 0 \<le> current_index q \<and> current_index q < int (length (queue q)))"

text \<open>Concrete songs and queues for the examples.\<close>

definition mk_song :: "string \<Rightarrow> song" where
  "mk_song i = \<lparr>sid = i, title = i, url = i, duration = 180, uploader = [],
     uploader_url = [], thumbnail = [], requester_id = None, cached_path = None\<rparr>"

definition queue_of :: "string list \<Rightarrow> int \<Rightarrow> bool \<Rightarrow> music_queue" where
  "queue_of ids i l = \<lparr>queue = map mk_song ids, current_index = i, loop = l\<rparr>"

section \<open>Playback state (module/music_player/core/state.py)\<close>

text \<open>
  The dataclass \<^verbatim>\<open>PlaybackState\<close>. Every reading of \<^verbatim>\<open>time.time()\<close> is an explicit
  argument \<open>now\<close>; the clock values are real numbers (the rounding of Python floats is
  not modelled). The fields \<^verbatim>\<open>_start_time\<close>, \<^verbatim>\<open>_pause_start\<close>, \<^verbatim>\<open>_total_paused\<close>,
  \<^verbatim>\<open>_duration\<close>, \<^verbatim>\<open>_current_song_id\<close> and \<^verbatim>\<open>_last_manual_operation_time\<close> lose
  their underscore; \<^verbatim>\<open>_duration\<close> is \<open>state_duration\<close>.
\<close>

record playback_state =
  is_playing :: bool
  is_paused :: bool
  start_time :: real
  pause_start :: real
  total_paused :: real
  state_duration :: int
  current_song_id :: "string option"
  last_manual_operation_time :: real

definition init_state :: playback_state where
  "init_state = \<lparr>is_playing = False, is_paused = False, start_time = 0, pause_start = 0,
     total_paused = 0, state_duration = 0, current_song_id = None,
     last_manual_operation_time = 0\<rparr>"

definition start :: "real \<Rightarrow> playback_state \<Rightarrow> int \<Rightarrow> string option \<Rightarrow> playback_state" where
  "start now s d song_id =
     s\<lparr>is_playing := True, is_paused := False, start_time := now, total_paused := 0,
       state_duration := d, current_song_id := song_id\<rparr>"

definition pause :: "real \<Rightarrow> playback_state \<Rightarrow> bool \<times> playback_state" where
  "pause now s =
     (if is_playing s \<and> \<not> is_paused s
      then (True, s\<lparr>is_paused := True, pause_start := now\<rparr>)
      else (False, s))"

definition resume :: "real \<Rightarrow> playback_state \<Rightarrow> bool \<times> playback_state" where
  "resume now s =
     (if is_paused s
      then (True, s\<lparr>is_paused := False,
                    total_paused := total_paused s + (now - pause_start s)\<rparr>)
      else (False, s))"

definition stop :: "playback_state \<Rightarrow> playback_state" where
  "stop s =
     s\<lparr>is_playing := False, is_paused := False, start_time := 0, pause_start := 0,
       total_paused := 0, current_song_id := None\<rparr>"

definition reset :: "playback_state \<Rightarrow> playback_state" where
  "reset s = (stop s)\<lparr>state_duration := 0\<rparr>"

text \<open>Python's \<^verbatim>\<open>int(x)\<close> on a float truncates towards zero.\<close>

definition py_int :: "real \<Rightarrow> int" where
  "py_int x = (if 0 \<le> x then \<lfloor>x\<rfloor> else \<lceil>x\<rceil>)"

definition current_position :: "real \<Rightarrow> playback_state \<Rightarrow> int" where
  "current_position now s =
     (if \<not> is_playing s then 0
      else
        (let elapsed = (if is_paused s
                        then pause_start s - start_time s - total_paused s
                        else now - start_time s - total_paused s)
         in max 0 (min (py_int elapsed) (state_duration s))))"

definition mark_manual_operation :: "real \<Rightarrow> playback_state \<Rightarrow> playback_state" where
  "mark_manual_operation now s = s\<lparr>last_manual_operation_time := now\<rparr>"

text \<open>
  The states a program can reach: the method calls, each with the clock reading at
  which it happens, applied in order to a fresh \<^verbatim>\<open>PlaybackState()\<close>.
\<close>

datatype event =
  Start int "string option" | Pause | Resume | Stop | Reset | MarkManualOperation

fun apply_event :: "playback_state \<Rightarrow> real \<times> event \<Rightarrow> playback_state" where
  "apply_event s (now, Start d song_id) = start now s d song_id"
| "apply_event s (now, Pause) = snd (pause now s)"
| "apply_event s (now, Resume) = snd (resume now s)"
| "apply_event s (now, Stop) = stop s"
| "apply_event s (now, Reset) = reset s"
| "apply_event s (now, MarkManualOperation) = mark_manual_operation now s"

definition run_events :: "(real \<times> event) list \<Rightarrow> playback_state" where
  "run_events evs = foldl apply_event init_state evs"

text \<open>
  Durations handed to \<^verbatim>\<open>start\<close> are song durations, which are never negative
  (\<^verbatim>\<open>_parse_video_data\<close> yields 0 or a positive integer).
\<close>

fun duration_ok :: "real \<times> event \<Rightarrow> bool" where
  "duration_ok (now, Start d song_id) = (0 \<le> d)"
| "duration_ok (now, e) = True"

text \<open>
  The position in the words of the specification, read off the calls alone. The timeline
  of a sequence of calls holds the clock reading of the last \<^verbatim>\<open>start\<close> (none when
  nothing is playing), the reading of the \<^verbatim>\<open>pause\<close> in force (none when not paused),
  the pause intervals that a \<^verbatim>\<open>resume\<close> has closed since that start, and the duration
  given to the start. \<^verbatim>\<open>pause\<close> does nothing if already paused or not playing,
  \<^verbatim>\<open>resume\<close> does nothing if not paused. The specified position is the time since the
  start, minus the accumulated length of the closed pause intervals, minus the time
  since the pause began when paused, truncated and clamped to \<open>[0, duration]\<close>; it is 0
  when nothing is playing.
\<close>

record timeline =
  started_at :: "real option"
  paused_at :: "real option"
  pauses :: "(real \<times> real) list"
  target_duration :: int

definition init_timeline :: timeline where
  "init_timeline = \<lparr>started_at = None, paused_at = None, pauses = [], target_duration = 0\<rparr>"

fun note_event :: "timeline \<Rightarrow> real \<times> event \<Rightarrow> timeline" where
  "note_event line (now, Start d song_id) =
     \<lparr>started_at = Some now, paused_at = None, pauses = [], target_duration = d\<rparr>"
| "note_event line (now, Pause) =
     (if started_at line \<noteq> None \<and> paused_at line = None
      then line\<lparr>paused_at := Some now\<rparr> else line)"
| "note_event line (now, Resume) =
     (case paused_at line of
        None \<Rightarrow> line
      | Some p \<Rightarrow> line\<lparr>paused_at := None, pauses := (p, now) # pauses line\<rparr>)"
| "note_event line (now, Stop) = line\<lparr>started_at := None, paused_at := None, pauses := []\<rparr>"
| "note_event line (now, Reset) = init_timeline"
| "note_event line (now, MarkManualOperation) = line"

definition timeline_of :: "(real \<times> event) list \<Rightarrow> timeline" where
  "timeline_of evs = foldl note_event init_timeline evs"

definition accumulated_paused :: "timeline \<Rightarrow> real" where
  "accumulated_paused line = sum_list (map (\<lambda>(p, r). r - p) (pauses line))"

definition spec_position :: "timeline \<Rightarrow> real \<Rightarrow> int" where
  "spec_position line now =
     (case started_at line of
        None \<Rightarrow> 0
      | Some s \<Rightarrow>
          max 0 (min (py_int ((now - s) - accumulated_paused line
                        - (case paused_at line of None \<Rightarrow> 0 | Some p \<Rightarrow> now - p)))
                     (target_duration line)))"

text \<open>The relation between the fields of the state and the timeline of the same calls.\<close>

definition agrees :: "playback_state \<Rightarrow> timeline \<Rightarrow> bool" where
  "agrees s line =
     ((is_playing s \<longleftrightarrow> started_at line \<noteq> None)
      \<and> (is_paused s \<longleftrightarrow> paused_at line \<noteq> None)
      \<and> (is_paused s \<longrightarrow> is_playing s)
      \<and> (is_playing s \<longrightarrow> started_at line = Some (start_time s)
             \<and> total_paused s = accumulated_paused line)
      \<and> (is_paused s \<longrightarrow> paused_at line = Some (pause_start s))
      \<and> state_duration s = target_duration line)"

section \<open>End-of-song handler (cogs/music_cog.py)\<close>

text \<open>
  Of \<^verbatim>\<open>MusicPlayer\<close> the handler reads the queue and the playback state; whatever else
  the player holds (transport, cache, flags) is the extension part of the record.
  \<^verbatim>\<open>self.player\<close> of the cog may be \<^verbatim>\<open>None\<close>. The messages sent to the chat are not
  modelled. \<^verbatim>\<open>_play_song\<close> (download, transport, state start, removal of an unavailable
  song) is a parameter \<open>play_song\<close>, and so is the constant
  \<^verbatim>\<open>MANUAL_OPERATION_DEBOUNCE\<close>, whose module is not part of the sources at hand.
\<close>

record player =
  player_queue :: music_queue
  player_state :: playback_state

definition play_next_song ::
  "(song \<Rightarrow> 'a player_scheme \<Rightarrow> 'a player_scheme) \<Rightarrow> 'a player_scheme option
     \<Rightarrow> 'a player_scheme option" where
  "play_next_song play_song cog_player =
     (case cog_player of
        None \<Rightarrow> None
      | Some p \<Rightarrow>
          (if length (queue (player_queue p)) = 0 then Some p
           else
             (let (next_song, q1) = queue_next (player_queue p);
                  p1 = p\<lparr>player_queue := q1\<rparr>
              in case next_song of
                   None \<Rightarrow> Some p1
                 | Some sng \<Rightarrow> Some (play_song sng p1))))"

definition on_song_end ::
  "(song \<Rightarrow> 'a player_scheme \<Rightarrow> 'a player_scheme) \<Rightarrow> real \<Rightarrow> real
     \<Rightarrow> 'a player_scheme option \<Rightarrow> 'a player_scheme option" where
  "on_song_end play_song debounce now cog_player =
     (case cog_player of
        None \<Rightarrow> None
      | Some p \<Rightarrow>
          (if last_manual_operation_time (player_state p) \<noteq> 0
              \<and> now - last_manual_operation_time (player_state p) < debounce
           then Some p
           else play_next_song play_song cog_player))"

section \<open>Cache manager (module/music_player/core/cache.py)\<close>

text \<open>
  A \<^verbatim>\<open>Path\<close> is the pair of its parent directory and its final component; the file
  system is the set of the paths that exist. The fields of \<^verbatim>\<open>CacheManager\<close>:
  \<^verbatim>\<open>_preload_tasks\<close> maps a song id to its task, of which only \<^verbatim>\<open>done()\<close> is read
  (\<open>True\<close> when done), and \<^verbatim>\<open>_keep_ids\<close> is a set of song ids.
\<close>

type_synonym path = "string \<times> string"

record cache_manager =
  cache_dir :: string
  window_behind :: int
  window_ahead :: int
  preload_tasks :: "string \<rightharpoonup> bool"
  keep_ids :: "string set"

definition get_path :: "cache_manager \<Rightarrow> string \<Rightarrow> path" where
  "get_path cm song_id = (cache_dir cm, song_id @ ''.opus'')"

definition cache_exists :: "path set \<Rightarrow> cache_manager \<Rightarrow> string \<Rightarrow> bool" where
  "cache_exists fs cm song_id = (get_path cm song_id \<in> fs)"

definition cache_get :: "path set \<Rightarrow> cache_manager \<Rightarrow> string \<Rightarrow> path option" where
  "cache_get fs cm song_id =
     (let path = get_path cm song_id in if path \<in> fs then Some path else None)"

text \<open>
  \<^verbatim>\<open>put\<close>. \<^verbatim>\<open>source.rename(target)\<close> may raise; the exception is caught and logged and
  the files stay as they were. Whether the call succeeds is the answer \<open>rename_ok\<close> of the
  operating system.
\<close>

definition put ::
  "(path \<Rightarrow> path \<Rightarrow> bool) \<Rightarrow> cache_manager \<Rightarrow> path set \<Rightarrow> string \<Rightarrow> path \<Rightarrow> path set" where
  "put rename_ok cm fs song_id source =
     (let target = get_path cm song_id in
      if source = target then fs
      else if target \<in> fs then fs
      else if source \<in> fs then
        (if rename_ok source target then insert target (fs - {source}) else fs)
      else fs)"

text \<open>
  \<^verbatim>\<open>glob("*.opus")\<close> and \<^verbatim>\<open>Path.stem\<close>: the stem of a name is the name up to its last
  dot, when that dot is neither the first nor the last character.
\<close>

definition is_opus :: "string \<Rightarrow> bool" where
  "is_opus name = (5 \<le> length name \<and> drop (length name - 5) name = ''.opus'')"

fun rfind :: "'a \<Rightarrow> 'a list \<Rightarrow> nat option" where
  "rfind c [] = None"
| "rfind c (x # xs) =
     (case rfind c xs of
        Some i \<Rightarrow> Some (Suc i)
      | None \<Rightarrow> if x = c then Some 0 else None)"

definition stem :: "string \<Rightarrow> string" where
  "stem name =
     (case rfind (CHR ''.'') name of
        None \<Rightarrow> name
      | Some i \<Rightarrow> if 0 < i \<and> Suc i < length name then take i name else name)"

definition update_keep_ids :: "cache_manager \<Rightarrow> song list \<Rightarrow> int \<Rightarrow> cache_manager" where
  "update_keep_ids cm songs index =
     (let keep_start = max 0 (index - window_behind cm);
          keep_end = min (int (length songs)) (index + window_ahead cm + 1)
      in cm\<lparr>keep_ids := set (map (\<lambda>i. sid (songs ! nat i)) [keep_start..keep_end - 1])\<rparr>)"

text \<open>
  \<^verbatim>\<open>_cleanup_old\<close>. \<^verbatim>\<open>file.unlink()\<close> may raise; the exception is caught and logged and
  the file stays. Whether the call succeeds is the answer \<open>unlink_ok\<close> of the operating
  system.
\<close>

definition cleanup_old :: "(path \<Rightarrow> bool) \<Rightarrow> cache_manager \<Rightarrow> path set \<Rightarrow> path set" where
  "cleanup_old unlink_ok cm fs =
     Set.filter
       (\<lambda>file. \<not> (fst file = cache_dir cm \<and> is_opus (snd file)
                   \<and> stem (snd file) \<notin> keep_ids cm \<and> unlink_ok file))
       fs"

text \<open>
  The loop of \<^verbatim>\<open>_preload_ahead\<close> over the offsets, with its \<^verbatim>\<open>break\<close> and its two
  \<^verbatim>\<open>continue\<close>. Creating a task records it, not yet done, under the song id; the
  download itself runs later.
\<close>

fun preload_loop ::
  "path set \<Rightarrow> cache_manager \<Rightarrow> song list \<Rightarrow> int \<Rightarrow> int list
     \<Rightarrow> (string \<rightharpoonup> bool) \<Rightarrow> (string \<rightharpoonup> bool)" where
  "preload_loop fs cm songs index [] tasks = tasks"
| "preload_loop fs cm songs index (offset # offsets) tasks =
     (let next_index = index + offset in
      if next_index \<ge> int (length songs) then tasks
      else
        (let sng = songs ! nat next_index in
         if cache_exists fs cm (sid sng) then preload_loop fs cm songs index offsets tasks
         else if (case tasks (sid sng) of Some done \<Rightarrow> \<not> done | None \<Rightarrow> False)
           then preload_loop fs cm songs index offsets tasks
         else preload_loop fs cm songs index offsets (tasks(sid sng \<mapsto> False))))"

definition preload_ahead ::
  "path set \<Rightarrow> cache_manager \<Rightarrow> song list \<Rightarrow> int \<Rightarrow> cache_manager" where
  "preload_ahead fs cm songs index =
     cm\<lparr>preload_tasks :=
          preload_loop fs cm songs index [1..window_ahead cm] (preload_tasks cm)\<rparr>"

definition on_song_change ::
  "(path \<Rightarrow> bool) \<Rightarrow> cache_manager \<Rightarrow> path set \<Rightarrow> song list \<Rightarrow> int
     \<Rightarrow> cache_manager \<times> path set" where
  "on_song_change unlink_ok cm fs songs index =
     (if songs = [] \<or> index < 0 then (cm, fs)
      else
        (let cm1 = update_keep_ids cm songs index;
             fs1 = cleanup_old unlink_ok cm1 fs;
             cm2 = preload_ahead fs1 cm1 songs index
         in (cm2, fs1)))"

text \<open>A cache manager with the window of the example, and a queue of ten songs.\<close>

definition window_cache :: cache_manager where
  "window_cache = \<lparr>cache_dir = ''cache'', window_behind = 2, window_ahead = 3,
     preload_tasks = Map.empty, keep_ids = {}\<rparr>"

definition ten_songs :: "song list" where
  "ten_songs = map mk_song
     [''s0'', ''s1'', ''s2'', ''s3'', ''s4'', ''s5'', ''s6'', ''s7'', ''s8'', ''s9'']"

section \<open>Downloader (module/music_player/downloader/yt_dlp.py)\<close>

text \<open>
  A Python \<^verbatim>\<open>str\<close> is the list of its Unicode code points; \<open>str\<close> turns an ASCII
  literal into one. \<^verbatim>\<open>str.lower()\<close> maps the ASCII letters \<open>A\<close>\<dots>\<open>Z\<close> to \<open>a\<close>\<dots>\<open>z\<close> and
  leaves the other ASCII characters alone, whatever surrounds them. What it does to a
  character outside ASCII is fixed by the case tables of the Unicode database of the
  Python runtime, which are not part of this repository: they are the parameter
  \<open>unicode_lower\<close>, which gets the characters before, the character and the characters
  after, and returns the characters that replace it. \<open>contains pattern text\<close> is
  \<^verbatim>\<open>pattern in text\<close>.
\<close>

type_synonym pystr = "nat list"

definition str :: "string \<Rightarrow> pystr" where
  "str s = map of_char s"

definition ascii_lower :: "nat \<Rightarrow> nat" where
  "ascii_lower c = (if 65 \<le> c \<and> c \<le> 90 then c + 32 else c)"

fun lower_from :: "(pystr \<Rightarrow> nat \<Rightarrow> pystr \<Rightarrow> pystr) \<Rightarrow> pystr \<Rightarrow> pystr \<Rightarrow> pystr" where
  "lower_from unicode_lower before [] = []"
| "lower_from unicode_lower before (c # after) =
     (if c < 128 then [ascii_lower c] else unicode_lower before c after)
       @ lower_from unicode_lower (before @ [c]) after"

definition lower :: "(pystr \<Rightarrow> nat \<Rightarrow> pystr \<Rightarrow> pystr) \<Rightarrow> pystr \<Rightarrow> pystr" where
  "lower unicode_lower s = lower_from unicode_lower [] s"

fun starts_with :: "'a list \<Rightarrow> 'a list \<Rightarrow> bool" where
  "starts_with [] text = True"
| "starts_with (p # ps) [] = False"
| "starts_with (p # ps) (c # cs) = (p = c \<and> starts_with ps cs)"

fun contains :: "'a list \<Rightarrow> 'a list \<Rightarrow> bool" where
  "contains pattern [] = (pattern = [])"
| "contains pattern (c # cs) = (starts_with pattern (c # cs) \<or> contains pattern cs)"

text \<open>The dictionary \<^verbatim>\<open>ERROR_PATTERNS\<close>, in its insertion order, which the loop follows.\<close>

definition ERROR_PATTERNS :: "(string \<times> string list) list" where
  "ERROR_PATTERNS =
   [(''age_restricted'',
       [''sign in to confirm your age'', ''age-restricted'', ''inappropriate for some users'']),
    (''copyright'',
       [''copyright grounds'', ''blocked it'', ''content owner'', ''has blocked'']),
    (''region_blocked'',
       [''not available in your country'']),
    (''private'',
       [''private video'', ''sign in if you've been granted access'']),
    (''unavailable'',
       [''video unavailable'', ''this video is unavailable'', ''no longer available'',
        ''has been removed'', ''account has been terminated''])]"

fun detect_loop :: "(string \<times> string list) list \<Rightarrow> pystr \<Rightarrow> string" where
  "detect_loop [] error_lower = ''unknown''"
| "detect_loop ((reason, patterns) # rest) error_lower =
     (if list_ex (\<lambda>pattern. contains (str pattern) error_lower) patterns then reason
      else detect_loop rest error_lower)"

definition detect_error_type :: "(pystr \<Rightarrow> nat \<Rightarrow> pystr \<Rightarrow> pystr) \<Rightarrow> pystr \<Rightarrow> string" where
  "detect_error_type unicode_lower error_msg =
     detect_loop ERROR_PATTERNS (lower unicode_lower error_msg)"

text \<open>The messages of \<^verbatim>\<open>_get_user_friendly_message\<close>, as code points.\<close>

definition messages :: "(string \<times> pystr) list" where
  "messages =
   [
    (''age_restricted'',
       [0x6B64, 0x5F71, 0x7247, 0x6709, 0x5E74, 0x9F61, 0x9650, 0x5236, 0xFF0C, 0x7121,
        0x6CD5, 0x64AD, 0x653E]),
    (''copyright'',
       [0x6B64, 0x5F71, 0x7247, 0x56E0, 0x7248, 0x6B0A, 0x554F, 0x984C, 0x88AB, 0x963B,
        0x64CB]),
    (''region_blocked'',
       [0x6B64, 0x5F71, 0x7247, 0x5728, 0x60A8, 0x7684, 0x5730, 0x5340, 0x7121, 0x6CD5,
        0x89C0, 0x770B]),
    (''private'',
       [0x6B64, 0x5F71, 0x7247, 0x70BA, 0x79C1, 0x4EBA, 0x6216, 0x4E0D, 0x516C, 0x958B]),
    (''unavailable'',
       [0x6B64, 0x5F71, 0x7247, 0x5DF2, 0x4E0D, 0x53EF, 0x7528]),
    (''unknown'',
       [0x7121, 0x6CD5, 0x53D6, 0x5F97, 0x5F71, 0x7247, 0x8CC7, 0x8A0A])]"

definition get_user_friendly_message :: "string \<Rightarrow> pystr" where
  "get_user_friendly_message reason =
     (case map_of messages reason of
        Some message \<Rightarrow> message
      | None \<Rightarrow> the (map_of messages ''unknown''))"

record error_response =
  success :: bool
  error_type :: string
  error_message :: pystr
  display_message :: pystr
  response_url :: string
  timestamp :: real

definition create_error_response ::
  "(pystr \<Rightarrow> nat \<Rightarrow> pystr \<Rightarrow> pystr) \<Rightarrow> real \<Rightarrow> pystr \<Rightarrow> string \<Rightarrow> error_response" where
  "create_error_response unicode_lower now error_msg request_url =
     (let reason = detect_error_type unicode_lower error_msg in
      \<lparr>success = False, error_type = reason, error_message = error_msg,
       display_message = get_user_friendly_message reason,
       response_url = request_url, timestamp = now\<rparr>)"

text \<open>
  \<^verbatim>\<open>extract_info\<close>. The run of the yt-dlp process is its outcome: a timeout, another
  exception, or an exit with a return code and the decoded, stripped output streams.
  \<^verbatim>\<open>json.loads\<close> followed by \<^verbatim>\<open>_parse_video_data\<close> is the parameter \<open>parse_video\<close>
  (\<open>None\<close> for invalid JSON or an invalid video). The result is \<^verbatim>\<open>None\<close>, the
  information of the video, or an error response.
\<close>

record video_info =
  info_id :: string
  info_title :: pystr
  info_uploader :: pystr
  info_uploader_url :: string
  info_duration :: int
  info_url :: string
  info_thumbnail :: string

datatype extract_result = NoResult | Info video_info | ErrorResponse error_response

datatype proc_outcome = ProcTimeout | ProcException | ProcExited int pystr pystr

fun digits :: "nat \<Rightarrow> string" where
  "digits n =
     (if n < 10 then [char_of (48 + n)] else digits (n div 10) @ [char_of (48 + n mod 10)])"

definition str_of_int :: "int \<Rightarrow> string" where
  "str_of_int i = (if i < 0 then ''-'' @ digits (nat (- i)) else digits (nat i))"

definition unknown_error :: "int \<Rightarrow> pystr" where
  "unknown_error returncode =
     [0x672A, 0x77E5, 0x932F, 0x8AA4, 0x0020]
     @ str ''(returncode='' @ str (str_of_int returncode) @ str '')''"

definition extract_info ::
  "(pystr \<Rightarrow> nat \<Rightarrow> pystr \<Rightarrow> pystr) \<Rightarrow> real \<Rightarrow> (pystr \<Rightarrow> video_info option)
     \<Rightarrow> proc_outcome \<Rightarrow> string \<Rightarrow> extract_result" where
  "extract_info unicode_lower now parse_video outcome request_url =
     (case outcome of
        ProcTimeout \<Rightarrow> NoResult
      | ProcException \<Rightarrow> NoResult
      | ProcExited returncode stdout_str stderr_str \<Rightarrow>
          (if returncode \<noteq> 0 then
             (let error_msg = (if stderr_str \<noteq> [] then stderr_str
                               else if stdout_str \<noteq> [] then stdout_str
                               else unknown_error returncode)
              in ErrorResponse
                   (create_error_response unicode_lower now error_msg request_url))
           else (case parse_video stdout_str of
                   None \<Rightarrow> NoResult
                 | Some info \<Rightarrow> Info info)))"

text \<open>
  \<^verbatim>\<open>download\<close>. \<open>extract\<close> is a call of \<^verbatim>\<open>extract_info\<close>. The part after the tests,
  which runs yt-dlp and FFmpeg and writes files, is the parameter \<open>fetch\<close>: it fails
  with the error output of yt-dlp, ends without a file (no download found, failed
  conversion, timeout, exception), or yields the path of the opus file; it alone changes
  the files.
\<close>

datatype fetch_outcome = FetchFailed pystr | FetchNothing | Fetched path

definition run_fetch ::
  "(pystr \<Rightarrow> nat \<Rightarrow> pystr \<Rightarrow> pystr) \<Rightarrow> real
     \<Rightarrow> (string \<Rightarrow> string \<Rightarrow> path set \<Rightarrow> fetch_outcome \<times> path set) \<Rightarrow> path set
     \<Rightarrow> string \<Rightarrow> string \<Rightarrow> video_info \<Rightarrow> (extract_result \<times> path option) \<times> path set" where
  "run_fetch unicode_lower now fetch fs request_url song_id info =
     (case fetch request_url song_id fs of
        (FetchFailed error_msg, fs1) \<Rightarrow>
          ((ErrorResponse (create_error_response unicode_lower now error_msg request_url),
            None), fs1)
      | (FetchNothing, fs1) \<Rightarrow> ((NoResult, None), fs1)
      | (Fetched opus_path, fs1) \<Rightarrow> ((Info info, Some opus_path), fs1))"

definition download ::
  "(pystr \<Rightarrow> nat \<Rightarrow> pystr \<Rightarrow> pystr) \<Rightarrow> real \<Rightarrow> (string \<Rightarrow> extract_result)
     \<Rightarrow> (string \<Rightarrow> string \<Rightarrow> path set \<Rightarrow> fetch_outcome \<times> path set)
     \<Rightarrow> string \<Rightarrow> path set \<Rightarrow> string \<Rightarrow> string option
     \<Rightarrow> (extract_result \<times> path option) \<times> path set" where
  "download unicode_lower now extract fetch dir fs request_url song_id =
     (case song_id of
        None \<Rightarrow>
          (case extract request_url of
             NoResult \<Rightarrow> ((NoResult, None), fs)
           | ErrorResponse e \<Rightarrow> ((ErrorResponse e, None), fs)
           | Info info \<Rightarrow>
               (let opus_path = (dir, info_id info @ ''.opus'') in
                if opus_path \<in> fs then ((Info info, Some opus_path), fs)
                else run_fetch unicode_lower now fetch fs request_url (info_id info) info))
      | Some given_id \<Rightarrow>
          (let opus_path = (dir, given_id @ ''.opus'') in
           if opus_path \<in> fs then ((extract request_url, Some opus_path), fs)
           else
             (case extract request_url of
                NoResult \<Rightarrow> ((NoResult, None), fs)
              | ErrorResponse e \<Rightarrow> ((ErrorResponse e, None), fs)
              | Info info \<Rightarrow>
                  run_fetch unicode_lower now fetch fs request_url given_id info)))"

text \<open>The patterns of the table entries that come before the entry of a reason.\<close>

definition patterns_before :: "string \<Rightarrow> string list" where
  "patterns_before reason =
     concat (map snd (takeWhile (\<lambda>entry. fst entry \<noteq> reason) ERROR_PATTERNS))"

section \<open>Properties of the queue\<close>

lemma find_song_range: "find_song k xs n = Some i \<Longrightarrow> n \<le> i \<and> i < n + length xs"
  by (induction xs arbitrary: n) (fastforce split: if_splits)+

lemma inv_init: "queue_inv init_queue"
  by (simp add: queue_inv_def init_queue_def)

lemma inv_add: "queue_inv q \<Longrightarrow> queue_inv (snd (queue_add q s))"
  by (auto simp: queue_inv_def queue_add_def Let_def split: if_splits)

lemma inv_add_many: "queue_inv q \<Longrightarrow> queue_inv (snd (queue_add_many q ss))"
  by (auto simp: queue_inv_def queue_add_many_def Let_def split: if_splits)

lemma inv_remove_by_index: "queue_inv q \<Longrightarrow> queue_inv (snd (queue_remove_by_index q i))"
  by (auto simp: queue_inv_def queue_remove_by_index_def Let_def pop_at_def split: if_splits)

lemma inv_remove: "queue_inv q \<Longrightarrow> queue_inv (snd (queue_remove q k))"
proof (cases "find_song k (queue q) 0")
  case None
  assume "queue_inv q"
  with None show ?thesis by (simp add: queue_remove_def)
next
  case (Some i)
  assume inv: "queue_inv q"
  from Some have "i < length (queue q)" using find_song_range by fastforce
  with inv Some show ?thesis
    by (auto simp: queue_inv_def queue_remove_def Let_def pop_at_def split: if_splits)
qed

lemma inv_clear: "queue_inv (snd (queue_clear q))"
  by (simp add: queue_inv_def queue_clear_def)

lemma inv_next: "queue_inv q \<Longrightarrow> queue_inv (snd (queue_next q))"
  by (auto simp: queue_inv_def queue_next_def Let_def split: if_splits)

lemma inv_previous: "queue_inv q \<Longrightarrow> queue_inv (snd (queue_previous q))"
  by (auto simp: queue_inv_def queue_previous_def Let_def split: if_splits)

lemma inv_jump_to: "queue_inv q \<Longrightarrow> queue_inv (snd (jump_to q j))"
  by (auto simp: queue_inv_def jump_to_def Let_def split: if_splits)

lemma add_first: "queue q = [] \<Longrightarrow> current_index (snd (queue_add q s)) = 0"
  by (simp add: queue_add_def Let_def)

lemma add_many_first:
  "queue q = [] \<Longrightarrow> ss \<noteq> [] \<Longrightarrow> current_index (snd (queue_add_many q ss)) = 0"
  by (simp add: queue_add_many_def Let_def)

lemma remove_by_index_before:
  "queue_inv q \<Longrightarrow> 0 \<le> i - 1 \<Longrightarrow> i - 1 < current_index q \<Longrightarrow>
   current_index (snd (queue_remove_by_index q i)) = current_index q - 1"
  by (auto simp: queue_inv_def queue_remove_by_index_def Let_def pop_at_def split: if_splits)

lemma remove_by_index_current:
  "queue_inv q \<Longrightarrow> i - 1 = current_index q \<Longrightarrow> 2 \<le> length (queue q) \<Longrightarrow>
   current_index (snd (queue_remove_by_index q i)) =
     min (current_index q) (int (length (queue q)) - 2)"
  by (auto simp: queue_inv_def queue_remove_by_index_def Let_def pop_at_def split: if_splits)

lemma remove_before:
  "queue_inv q \<Longrightarrow> find_song k (queue q) 0 = Some i \<Longrightarrow> int i < current_index q \<Longrightarrow>
   current_index (snd (queue_remove q k)) = current_index q - 1"
  by (auto simp: queue_inv_def queue_remove_def Let_def pop_at_def split: if_splits)

lemma remove_current:
  "queue_inv q \<Longrightarrow> find_song k (queue q) 0 = Some i \<Longrightarrow> int i = current_index q \<Longrightarrow>
   2 \<le> length (queue q) \<Longrightarrow>
   current_index (snd (queue_remove q k)) =
     min (current_index q) (int (length (queue q)) - 2)"
  by (auto simp: queue_inv_def queue_remove_def Let_def pop_at_def split: if_splits)

text \<open>
  Claim C4. Every queue operation (add, add_many, remove by id, remove by index, clear,
  next, previous, jump_to) preserves the invariant that the current index is \<open>-1\<close>
  exactly when the queue is empty and lies in \<open>[0, length)\<close> otherwise; the fresh queue
  satisfies it; adding the first song sets the index to 0; removing the song at the
  current index leaves the index in range (it moves to the new last position when the
  last song was the current one, and stays otherwise); removing a song before the
  current index decrements the index by one.
\<close>

theorem queue_operations_keep_index_invariant:
  assumes "queue_inv q"
  shows "queue_inv init_queue
    \<and> queue_inv (snd (queue_add q s))
    \<and> queue_inv (snd (queue_add_many q ss))
    \<and> queue_inv (snd (queue_remove q k))
    \<and> queue_inv (snd (queue_remove_by_index q i))
    \<and> queue_inv (snd (queue_clear q))
    \<and> queue_inv (snd (queue_next q))
    \<and> queue_inv (snd (queue_previous q))
    \<and> queue_inv (snd (jump_to q j))
    \<and> (queue q = [] \<longrightarrow> current_index (snd (queue_add q s)) = 0)
    \<and> (queue q = [] \<and> ss \<noteq> [] \<longrightarrow> current_index (snd (queue_add_many q ss)) = 0)
    \<and> (i - 1 = current_index q \<and> 2 \<le> length (queue q) \<longrightarrow>
          current_index (snd (queue_remove_by_index q i)) =
            min (current_index q) (int (length (queue q)) - 2))
    \<and> (find_song k (queue q) 0 = Some n \<and> int n = current_index q \<and> 2 \<le> length (queue q) \<longrightarrow>
          current_index (snd (queue_remove q k)) =
            min (current_index q) (int (length (queue q)) - 2))
    \<and> (0 \<le> i - 1 \<and> i - 1 < current_index q \<longrightarrow>
          current_index (snd (queue_remove_by_index q i)) = current_index q - 1)
    \<and> (find_song k (queue q) 0 = Some n \<and> int n < current_index q \<longrightarrow>
          current_index (snd (queue_remove q k)) = current_index q - 1)"
proof (intro conjI impI)
  show "queue_inv init_queue" by (rule inv_init)
  show "queue_inv (snd (queue_add q s))" using assms by (rule inv_add)
  show "queue_inv (snd (queue_add_many q ss))" using assms by (rule inv_add_many)
  show "queue_inv (snd (queue_remove q k))" using assms by (rule inv_remove)
  show "queue_inv (snd (queue_remove_by_index q i))" using assms by (rule inv_remove_by_index)
  show "queue_inv (snd (queue_clear q))" by (rule inv_clear)
  show "queue_inv (snd (queue_next q))" using assms by (rule inv_next)
  show "queue_inv (snd (queue_previous q))" using assms by (rule inv_previous)
  show "queue_inv (snd (jump_to q j))" using assms by (rule inv_jump_to)
next
  assume "queue q = []"
  then show "current_index (snd (queue_add q s)) = 0" by (rule add_first)
next
  assume "queue q = [] \<and> ss \<noteq> []"
  then show "current_index (snd (queue_add_many q ss)) = 0" by (simp add: add_many_first)
next
  assume "i - 1 = current_index q \<and> 2 \<le> length (queue q)"
  then show "current_index (snd (queue_remove_by_index q i)) =
      min (current_index q) (int (length (queue q)) - 2)"
    using assms by (simp add: remove_by_index_current)
next
  assume "find_song k (queue q) 0 = Some n \<and> int n = current_index q \<and> 2 \<le> length (queue q)"
  then show "current_index (snd (queue_remove q k)) =
      min (current_index q) (int (length (queue q)) - 2)"
    using assms remove_current [of q k n] by simp
next
  assume "0 \<le> i - 1 \<and> i - 1 < current_index q"
  then show "current_index (snd (queue_remove_by_index q i)) = current_index q - 1"
    using assms by (simp add: remove_by_index_before)
next
  assume "find_song k (queue q) 0 = Some n \<and> int n < current_index q"
  then show "current_index (snd (queue_remove q k)) = current_index q - 1"
    using assms remove_before [of q k n] by simp
qed

theorem queue_operations_keep_index_invariant_witness:
  "queue_inv (queue_of [''a'', ''b'', ''c''] 1 False)
   \<and> queue_inv (snd (queue_next (queue_of [''a'', ''b'', ''c''] 1 False)))
   \<and> current_index (snd (queue_remove_by_index (queue_of [''a'', ''b'', ''c''] 1 False) 1)) = 0
   \<and> current_index (snd (queue_remove (queue_of [''a'', ''b'', ''c''] 1 False) ''a'')) = 0
   \<and> current_index (snd (queue_remove_by_index (queue_of [''a'', ''b'', ''c''] 1 False) 2)) = 1
   \<and> current_index (snd (queue_remove (queue_of [''a'', ''b'', ''c''] 1 False) ''b'')) = 1
   \<and> queue_inv init_queue
   \<and> current_index (snd (queue_add init_queue (mk_song ''d''))) = 0
   \<and> current_index (snd (queue_add_many init_queue [mk_song ''d'', mk_song ''e''])) = 0"
proof -
  let ?q = "queue_of [''a'', ''b'', ''c''] 1 False"
  have h: "queue_inv ?q"
    by (simp add: queue_inv_def queue_of_def)
  have f: "find_song ''a'' (queue ?q) 0 = Some 0" "find_song ''b'' (queue ?q) 0 = Some 1"
    by (simp_all add: queue_of_def mk_song_def)
  have q: "current_index ?q = 1" "length (queue ?q) = 3"
    by (simp_all add: queue_of_def)
  note before = queue_operations_keep_index_invariant
    [OF h, of "mk_song ''d''" "[]" "''a''" 1 0 0]
  note at_cursor = queue_operations_keep_index_invariant
    [OF h, of "mk_song ''d''" "[]" "''b''" 2 0 1]
  note first = queue_operations_keep_index_invariant
    [OF inv_init, of "mk_song ''d''" "[mk_song ''d'', mk_song ''e'']" "''a''" 1 0 0]
  have e: "queue init_queue = []"
    by (simp add: init_queue_def)
  from before f q have b: "queue_inv (snd (queue_next ?q))"
    "current_index (snd (queue_remove_by_index ?q 1)) = 0"
    "current_index (snd (queue_remove ?q ''a'')) = 0"
    by simp_all
  from at_cursor f q have c: "current_index (snd (queue_remove_by_index ?q 2)) = 1"
    "current_index (snd (queue_remove ?q ''b'')) = 1"
    by simp_all
  from first e have a: "queue_inv init_queue"
    "current_index (snd (queue_add init_queue (mk_song ''d''))) = 0"
    "current_index (snd (queue_add_many init_queue [mk_song ''d'', mk_song ''e''])) = 0"
    by simp_all
  from h a b c show ?thesis by simp
qed

text \<open>
  Claim C7. \<^verbatim>\<open>jump_to\<close> with an out-of-range index (negative, or not less than the
  queue length) returns nothing and leaves the queue contents, the current index and the
  loop flag unchanged; for every in-range index it sets the current index to that index
  and returns the song there. The function is total: the only list access is behind the
  range check, so no call raises.
\<close>

theorem jump_to_out_of_range_is_noop:
  "(index < 0 \<or> index \<ge> int (length (queue q)) \<longrightarrow> jump_to q index = (None, q))
   \<and> (0 \<le> index \<and> index < int (length (queue q)) \<longrightarrow>
        fst (jump_to q index) = Some (queue q ! nat index)
        \<and> current_index (snd (jump_to q index)) = index
        \<and> queue (snd (jump_to q index)) = queue q
        \<and> loop (snd (jump_to q index)) = loop q)"
  by (simp add: jump_to_def current_song_def Let_def)

theorem jump_to_out_of_range_is_noop_witness:
  "jump_to (queue_of [''a'', ''b'', ''c''] 1 True) 3
     = (None, queue_of [''a'', ''b'', ''c''] 1 True)
   \<and> jump_to (queue_of [''a'', ''b'', ''c''] 1 True) (-1)
     = (None, queue_of [''a'', ''b'', ''c''] 1 True)
   \<and> fst (jump_to (queue_of [''a'', ''b'', ''c''] 1 True) 2) = Some (mk_song ''c'')
   \<and> current_index (snd (jump_to (queue_of [''a'', ''b'', ''c''] 1 True) 2)) = 2"
proof -
  let ?q = "queue_of [''a'', ''b'', ''c''] 1 True"
  have l: "length (queue ?q) = 3" "queue ?q ! 2 = mk_song ''c''"
    by (simp_all add: queue_of_def)
  from jump_to_out_of_range_is_noop [of 3 ?q] l have "jump_to ?q 3 = (None, ?q)"
    by simp
  moreover from jump_to_out_of_range_is_noop [of "-1" ?q] have "jump_to ?q (-1) = (None, ?q)"
    by simp
  moreover from jump_to_out_of_range_is_noop [of 2 ?q] l
  have "fst (jump_to ?q 2) = Some (mk_song ''c'') \<and> current_index (snd (jump_to ?q 2)) = 2"
    by simp
  ultimately show ?thesis by simp
qed

text \<open>
  Claim C9. For a queue with loop enabled and exactly one song (cursor on it),
  \<^verbatim>\<open>next()\<close> and \<^verbatim>\<open>previous()\<close> return that song and leave the queue, the index
  included, as it was, although \<^verbatim>\<open>has_next()\<close> and \<^verbatim>\<open>has_previous()\<close> are both false.
\<close>

theorem single_song_loop_returns_song:
  assumes "queue q = [s]" and "loop q" and "current_index q = 0"
  shows "queue_next q = (Some s, q) \<and> queue_previous q = (Some s, q)
    \<and> \<not> has_next q \<and> \<not> has_previous q"
  using assms
  by (simp add: queue_next_def queue_previous_def has_next_def has_previous_def
      current_song_def Let_def)

theorem single_song_loop_returns_song_witness:
  "queue_next (queue_of [''solo''] 0 True) = (Some (mk_song ''solo''), queue_of [''solo''] 0 True)
   \<and> queue_previous (queue_of [''solo''] 0 True)
       = (Some (mk_song ''solo''), queue_of [''solo''] 0 True)
   \<and> \<not> has_next (queue_of [''solo''] 0 True)
   \<and> \<not> has_previous (queue_of [''solo''] 0 True)"
  using single_song_loop_returns_song [of "queue_of [''solo''] 0 True" "mk_song ''solo''"]
  by (simp add: queue_of_def)

lemma mod_length_range:
  assumes "xs \<noteq> []"
  shows "\<not> k mod int (length xs) < 0" and "\<not> int (length xs) \<le> k mod int (length xs)"
proof -
  from assms have n: "0 < int (length xs)" by simp
  from pos_mod_sign [OF n, of k] show "\<not> k mod int (length xs) < 0" by linarith
  from pos_mod_bound [OF n, of k] show "\<not> int (length xs) \<le> k mod int (length xs)"
    by linarith
qed

text \<open>
  Claim C1, as stated, makes \<^verbatim>\<open>next()\<close> and \<^verbatim>\<open>previous()\<close> return nothing past
  either end whenever the wrap condition (loop enabled and at least two entries) fails.
  With loop enabled and a single entry that condition fails and the cursor is at both
  ends, yet both calls return the song.
\<close>

theorem next_previous_single_entry_loop_counterexample:
  "\<not> (loop (queue_of [''a''] 0 True) \<and> 2 \<le> length (queue (queue_of [''a''] 0 True)))
   \<and> current_index (queue_of [''a''] 0 True) + 1
        \<ge> int (length (queue (queue_of [''a''] 0 True)))
   \<and> current_index (queue_of [''a''] 0 True) \<le> 0
   \<and> fst (queue_next (queue_of [''a''] 0 True)) = Some (mk_song ''a'')
   \<and> fst (queue_previous (queue_of [''a''] 0 True)) = Some (mk_song ''a'')"
  by (simp add: queue_of_def queue_next_def queue_previous_def current_song_def Let_def)

text \<open>
  Claim C1, amended. \<^verbatim>\<open>next()\<close> and \<^verbatim>\<open>previous()\<close> wrap around whenever the loop
  flag is enabled and the queue is not empty: the cursor moves to \<open>(index \<plusminus> 1) mod length\<close>
  and the song there is returned, so the last index is followed by 0 and index 0 is
  preceded by the last index (with a single entry the cursor wraps onto itself). With
  loop disabled they return nothing past either end and leave the queue as it was, and
  step by one otherwise; on an empty queue they return nothing. In particular, for
  every non-empty queue with loop disabled and the cursor at the last index, \<^verbatim>\<open>next()\<close>
  returns nothing and the cursor stays, and for every queue with loop enabled and length
  at least 2, \<^verbatim>\<open>next()\<close> and \<^verbatim>\<open>previous()\<close> never return nothing. No call raises:
  the functions are total and read the list only behind the range check of
  \<^verbatim>\<open>current_song\<close>.
\<close>

theorem next_previous_loop_semantics:
  "(loop q \<and> queue q \<noteq> [] \<longrightarrow>
      fst (queue_next q)
        = Some (queue q ! nat ((current_index q + 1) mod int (length (queue q))))
      \<and> current_index (snd (queue_next q))
        = (current_index q + 1) mod int (length (queue q))
      \<and> fst (queue_previous q)
        = Some (queue q ! nat ((current_index q - 1) mod int (length (queue q))))
      \<and> current_index (snd (queue_previous q))
        = (current_index q - 1) mod int (length (queue q)))
   \<and> (loop q \<and> queue q \<noteq> [] \<and> current_index q + 1 = int (length (queue q)) \<longrightarrow>
        current_index (snd (queue_next q)) = 0)
   \<and> (loop q \<and> queue q \<noteq> [] \<and> current_index q = 0 \<longrightarrow>
        current_index (snd (queue_previous q)) = int (length (queue q)) - 1)
   \<and> (\<not> loop q \<and> current_index q + 1 \<ge> int (length (queue q)) \<longrightarrow>
        queue_next q = (None, q))
   \<and> (\<not> loop q \<and> current_index q \<le> 0 \<longrightarrow> queue_previous q = (None, q))
   \<and> (\<not> loop q \<and> 0 \<le> current_index q \<and> current_index q + 1 < int (length (queue q)) \<longrightarrow>
        fst (queue_next q) = Some (queue q ! nat (current_index q + 1))
        \<and> current_index (snd (queue_next q)) = current_index q + 1)
   \<and> (\<not> loop q \<and> 0 < current_index q \<and> current_index q < int (length (queue q)) \<longrightarrow>
        fst (queue_previous q) = Some (queue q ! nat (current_index q - 1))
        \<and> current_index (snd (queue_previous q)) = current_index q - 1)
   \<and> (queue q = [] \<longrightarrow> queue_next q = (None, q) \<and> queue_previous q = (None, q))
   \<and> (loop q \<and> 2 \<le> length (queue q) \<longrightarrow>
        fst (queue_next q) \<noteq> None \<and> fst (queue_previous q) \<noteq> None)"
proof (intro conjI impI)
  assume a: "loop q \<and> queue q \<noteq> []"
  then have n: "queue q \<noteq> []" by simp
  show "fst (queue_next q)
      = Some (queue q ! nat ((current_index q + 1) mod int (length (queue q))))"
    using a by (simp add: queue_next_def current_song_def Let_def mod_length_range)
  show "current_index (snd (queue_next q))
      = (current_index q + 1) mod int (length (queue q))"
    using a by (simp add: queue_next_def Let_def)
  show "fst (queue_previous q)
      = Some (queue q ! nat ((current_index q - 1) mod int (length (queue q))))"
    using a by (simp add: queue_previous_def current_song_def Let_def mod_length_range)
  show "current_index (snd (queue_previous q))
      = (current_index q - 1) mod int (length (queue q))"
    using a by (simp add: queue_previous_def Let_def)
next
  assume "loop q \<and> queue q \<noteq> [] \<and> current_index q + 1 = int (length (queue q))"
  then show "current_index (snd (queue_next q)) = 0"
    by (simp add: queue_next_def Let_def)
next
  assume a: "loop q \<and> queue q \<noteq> [] \<and> current_index q = 0"
  then have "0 < int (length (queue q))" by simp
  then have "(- 1) mod int (length (queue q)) = int (length (queue q)) - 1"
    by (simp add: zmod_minus1)
  with a show "current_index (snd (queue_previous q)) = int (length (queue q)) - 1"
    by (simp add: queue_previous_def Let_def)
next
  assume "\<not> loop q \<and> current_index q + 1 \<ge> int (length (queue q))"
  then show "queue_next q = (None, q)"
    by (simp add: queue_next_def)
next
  assume "\<not> loop q \<and> current_index q \<le> 0"
  then show "queue_previous q = (None, q)"
    by (simp add: queue_previous_def)
next
  assume a: "\<not> loop q \<and> 0 \<le> current_index q \<and> current_index q + 1 < int (length (queue q))"
  then show "fst (queue_next q) = Some (queue q ! nat (current_index q + 1))"
    by (auto simp: queue_next_def current_song_def Let_def)
  from a show "current_index (snd (queue_next q)) = current_index q + 1"
    by (auto simp: queue_next_def Let_def)
next
  assume a: "\<not> loop q \<and> 0 < current_index q \<and> current_index q < int (length (queue q))"
  then show "fst (queue_previous q) = Some (queue q ! nat (current_index q - 1))"
    by (auto simp: queue_previous_def current_song_def Let_def)
  from a show "current_index (snd (queue_previous q)) = current_index q - 1"
    by (auto simp: queue_previous_def Let_def)
next
  assume "queue q = []"
  then show "queue_next q = (None, q)" "queue_previous q = (None, q)"
    by (simp_all add: queue_next_def queue_previous_def)
next
  assume a: "loop q \<and> 2 \<le> length (queue q)"
  then have n: "queue q \<noteq> []" by auto
  with a show "fst (queue_next q) \<noteq> None"
    by (simp add: queue_next_def current_song_def Let_def mod_length_range)
  from a n show "fst (queue_previous q) \<noteq> None"
    by (simp add: queue_previous_def current_song_def Let_def mod_length_range)
qed

theorem next_previous_loop_semantics_witness:
  "fst (queue_next (queue_of [''a'', ''b'', ''c''] 2 True)) = Some (mk_song ''a'')
   \<and> current_index (snd (queue_next (queue_of [''a'', ''b'', ''c''] 2 True))) = 0
   \<and> fst (queue_previous (queue_of [''a'', ''b'', ''c''] 0 True)) = Some (mk_song ''c'')
   \<and> current_index (snd (queue_previous (queue_of [''a'', ''b'', ''c''] 0 True))) = 2
   \<and> queue_next (queue_of [''a'', ''b'', ''c''] 2 False)
       = (None, queue_of [''a'', ''b'', ''c''] 2 False)
   \<and> queue_previous (queue_of [''a'', ''b'', ''c''] 0 False)
       = (None, queue_of [''a'', ''b'', ''c''] 0 False)
   \<and> fst (queue_next (queue_of [''a'', ''b'', ''c''] 0 False)) = Some (mk_song ''b'')
   \<and> fst (queue_previous (queue_of [''a'', ''b'', ''c''] 2 False)) = Some (mk_song ''b'')
   \<and> queue_next init_queue = (None, init_queue)
   \<and> queue_previous init_queue = (None, init_queue)"
proof -
  let ?l2 = "queue_of [''a'', ''b'', ''c''] 2 True"
  let ?l0 = "queue_of [''a'', ''b'', ''c''] 0 True"
  let ?n2 = "queue_of [''a'', ''b'', ''c''] 2 False"
  let ?n0 = "queue_of [''a'', ''b'', ''c''] 0 False"
  have "fst (queue_next ?l2) = Some (mk_song ''a'')
      \<and> current_index (snd (queue_next ?l2)) = 0"
    using next_previous_loop_semantics [of ?l2] by (simp add: queue_of_def)
  moreover have "fst (queue_previous ?l0) = Some (mk_song ''c'')
      \<and> current_index (snd (queue_previous ?l0)) = 2"
    using next_previous_loop_semantics [of ?l0] by (simp add: queue_of_def)
  moreover have "queue_next ?n2 = (None, ?n2)
      \<and> fst (queue_previous ?n2) = Some (mk_song ''b'')"
    using next_previous_loop_semantics [of ?n2] by (simp add: queue_of_def)
  moreover have "queue_previous ?n0 = (None, ?n0)
      \<and> fst (queue_next ?n0) = Some (mk_song ''b'')"
    using next_previous_loop_semantics [of ?n0] by (simp add: queue_of_def)
  moreover have "queue_next init_queue = (None, init_queue)
      \<and> queue_previous init_queue = (None, init_queue)"
    using next_previous_loop_semantics [of init_queue] by (simp add: init_queue_def)
  ultimately show ?thesis by simp
qed

section \<open>Properties of the playback state\<close>

lemma py_int_mono: "x \<le> y \<Longrightarrow> py_int x \<le> py_int y"
proof -
  assume xy: "x \<le> y"
  show ?thesis
  proof (cases "0 \<le> x")
    case True
    with xy show ?thesis by (simp add: py_int_def floor_mono)
  next
    case False
    then have cx: "\<lceil>x\<rceil> \<le> 0" by (simp add: ceiling_le_zero)
    show ?thesis
    proof (cases "0 \<le> y")
      case True
      then have "0 \<le> \<lfloor>y\<rfloor>" by simp
      with cx have "\<lceil>x\<rceil> \<le> \<lfloor>y\<rfloor>" by linarith
      with False True show ?thesis by (simp add: py_int_def)
    next
      case y: False
      with False xy show ?thesis by (simp add: py_int_def ceiling_mono)
    qed
  qed
qed

lemma duration_nonneg_step:
  "0 \<le> state_duration s \<Longrightarrow> duration_ok ev \<Longrightarrow> 0 \<le> state_duration (apply_event s ev)"
  by (cases ev rule: duration_ok.cases)
     (simp_all add: start_def pause_def resume_def stop_def reset_def mark_manual_operation_def)

lemma duration_nonneg_foldl:
  "0 \<le> state_duration s \<Longrightarrow> list_all duration_ok evs
     \<Longrightarrow> 0 \<le> state_duration (foldl apply_event s evs)"
  by (induction evs arbitrary: s) (simp_all add: duration_nonneg_step)

lemma duration_nonneg_run:
  "list_all duration_ok evs \<Longrightarrow> 0 \<le> state_duration (run_events evs)"
  unfolding run_events_def by (rule duration_nonneg_foldl) (simp_all add: init_state_def)

lemma position_range:
  "0 \<le> state_duration s \<Longrightarrow>
     0 \<le> current_position now s \<and> current_position now s \<le> state_duration s"
  by (simp add: current_position_def Let_def)

lemma position_mono:
  "is_playing s \<Longrightarrow> \<not> is_paused s \<Longrightarrow> t1 \<le> t2 \<Longrightarrow>
     current_position t1 s \<le> current_position t2 s"
proof -
  assume a: "is_playing s" "\<not> is_paused s" "t1 \<le> t2"
  then have "py_int (t1 - start_time s - total_paused s)
      \<le> py_int (t2 - start_time s - total_paused s)"
    by (intro py_int_mono) simp
  with a show ?thesis by (simp add: current_position_def Let_def)
qed

lemma position_paused: "is_paused s \<Longrightarrow> current_position t1 s = current_position t2 s"
  by (simp add: current_position_def Let_def)

lemma position_example:
  "current_position (t0 + 45) (run_events [(t0, Start 180 i)]) = 45
   \<and> current_position (t0 + 55) (run_events [(t0, Start 180 i), (t0 + 45, Pause)]) = 45
   \<and> current_position (t0 + 60)
        (run_events [(t0, Start 180 i), (t0 + 45, Pause), (t0 + 55, Resume)]) = 50"
  by (simp add: run_events_def init_state_def start_def pause_def resume_def
      current_position_def py_int_def Let_def)

lemma agrees_init: "agrees init_state init_timeline"
  by (simp add: agrees_def init_state_def init_timeline_def)

lemma agrees_step: "agrees s line \<Longrightarrow> agrees (apply_event s ev) (note_event line ev)"
proof -
  assume a: "agrees s line"
  obtain now e where ev: "ev = (now, e)" by (cases ev)
  show ?thesis
  proof (cases e)
    case (Start d i)
    with ev show ?thesis
      by (simp add: agrees_def start_def accumulated_paused_def)
  next
    case Pause
    with ev a show ?thesis
      by (auto simp: agrees_def pause_def accumulated_paused_def)
  next
    case Resume
    with ev a show ?thesis
      by (auto simp: agrees_def resume_def accumulated_paused_def split: option.splits)
  next
    case Stop
    with ev a show ?thesis
      by (simp add: agrees_def stop_def accumulated_paused_def)
  next
    case Reset
    with ev a show ?thesis
      by (simp add: agrees_def stop_def reset_def accumulated_paused_def init_timeline_def)
  next
    case MarkManualOperation
    with ev a show ?thesis
      by (auto simp: agrees_def mark_manual_operation_def)
  qed
qed

lemma agrees_foldl:
  "agrees s line \<Longrightarrow> agrees (foldl apply_event s evs) (foldl note_event line evs)"
  by (induction evs arbitrary: s line) (simp_all add: agrees_step)

lemma agrees_run: "agrees (run_events evs) (timeline_of evs)"
  unfolding run_events_def timeline_of_def by (rule agrees_foldl) (rule agrees_init)

lemma agrees_position: "agrees s line \<Longrightarrow> current_position now s = spec_position line now"
  by (auto simp: agrees_def current_position_def spec_position_def Let_def algebra_simps
      split: option.splits)

lemma position_two_pauses:
  "current_position (t0 + 100)
     (run_events [(t0, Start 180 i), (t0 + 45, Pause), (t0 + 55, Resume),
                  (t0 + 70, Pause), (t0 + 90, Resume)]) = 70"
  by (simp add: run_events_def init_state_def start_def pause_def resume_def
      current_position_def py_int_def Let_def)

text \<open>
  Claim C2, as stated, gives the position of every reachable state as the clamped
  elapsed time since the start minus the paused time. After \<^verbatim>\<open>stop()\<close> the anchors are
  reset and that expression, clamped, is the full duration, while the code answers 0:
  it tests \<^verbatim>\<open>is_playing\<close> first.
\<close>

theorem stopped_state_position_counterexample:
  "list_all duration_ok [(100, Start 180 None), (130, Stop)]
   \<and> current_position 200 (run_events [(100, Start 180 None), (130, Stop)]) = 0
   \<and> max 0 (min (py_int ((200 - start_time (run_events [(100, Start 180 None), (130, Stop)]))
                  - total_paused (run_events [(100, Start 180 None), (130, Stop)])
                  - (if is_paused (run_events [(100, Start 180 None), (130, Stop)])
                     then 200 - pause_start (run_events [(100, Start 180 None), (130, Stop)])
                     else 0)))
             (state_duration (run_events [(100, Start 180 None), (130, Stop)]))) = 180"
  by (simp add: run_events_def init_state_def start_def stop_def
      current_position_def py_int_def Let_def)

text \<open>
  Claim C2, amended. For every reachable playback state (any sequence of \<^verbatim>\<open>start\<close>,
  \<^verbatim>\<open>pause\<close>, \<^verbatim>\<open>resume\<close>, \<^verbatim>\<open>stop\<close>, \<^verbatim>\<open>reset\<close>, \<^verbatim>\<open>mark_manual_operation\<close> calls
  at any clock readings, started with song durations, which are not negative) and every
  clock reading, \<^verbatim>\<open>current_position\<close> lies in \<open>[0, duration]\<close>; while playing and not
  paused it is non-decreasing in the clock reading; while paused it does not depend on
  the clock reading; it is 0 when nothing is playing (before the first start, after
  \<^verbatim>\<open>stop\<close> or \<^verbatim>\<open>reset\<close>); and while a song is playing or paused it equals the time
  since the last start, minus the accumulated paused time, minus the time since the
  pause began when paused, truncated and clamped to \<open>[0, duration]\<close>, these times being
  those of the calls themselves: the position computed from the fields equals the one
  read off the timeline of the calls, and the flags and the duration agree with it.
  Examples: \<^verbatim>\<open>start(180)\<close>, 45 seconds later the position is 45; after \<^verbatim>\<open>pause()\<close> and
  10 more seconds it is still 45; after \<^verbatim>\<open>resume()\<close> and 5 more seconds it is 50; with
  a second pause of 20 seconds the position 100 seconds after the start is 70.
\<close>

theorem current_position_clamped_and_monotone:
  assumes "list_all duration_ok evs"
  shows "0 \<le> current_position now (run_events evs)
    \<and> current_position now (run_events evs) \<le> state_duration (run_events evs)
    \<and> (is_playing (run_events evs) \<and> \<not> is_paused (run_events evs) \<and> t1 \<le> t2 \<longrightarrow>
          current_position t1 (run_events evs) \<le> current_position t2 (run_events evs))
    \<and> (is_paused (run_events evs) \<longrightarrow>
          current_position t1 (run_events evs) = current_position t2 (run_events evs))
    \<and> (\<not> is_playing (run_events evs) \<longrightarrow> current_position now (run_events evs) = 0)
    \<and> current_position now (run_events evs) = spec_position (timeline_of evs) now
    \<and> (is_playing (run_events evs) \<longleftrightarrow> started_at (timeline_of evs) \<noteq> None)
    \<and> (is_paused (run_events evs) \<longleftrightarrow> paused_at (timeline_of evs) \<noteq> None)
    \<and> state_duration (run_events evs) = target_duration (timeline_of evs)
    \<and> current_position (t0 + 45) (run_events [(t0, Start 180 i)]) = 45
    \<and> current_position (t0 + 55) (run_events [(t0, Start 180 i), (t0 + 45, Pause)]) = 45
    \<and> current_position (t0 + 60)
         (run_events [(t0, Start 180 i), (t0 + 45, Pause), (t0 + 55, Resume)]) = 50
    \<and> current_position (t0 + 100)
         (run_events [(t0, Start 180 i), (t0 + 45, Pause), (t0 + 55, Resume),
                      (t0 + 70, Pause), (t0 + 90, Resume)]) = 70"
proof -
  from assms have d: "0 \<le> state_duration (run_events evs)"
    by (rule duration_nonneg_run)
  have a: "agrees (run_events evs) (timeline_of evs)"
    by (rule agrees_run)
  have s: "\<not> is_playing (run_events evs) \<longrightarrow> current_position now (run_events evs) = 0"
    by (simp add: current_position_def)
  have f: "(is_playing (run_events evs) \<longleftrightarrow> started_at (timeline_of evs) \<noteq> None)
      \<and> (is_paused (run_events evs) \<longleftrightarrow> paused_at (timeline_of evs) \<noteq> None)
      \<and> state_duration (run_events evs) = target_duration (timeline_of evs)"
    using a unfolding agrees_def by blast
  show ?thesis
    using position_range [OF d, of now] position_mono [of "run_events evs" t1 t2]
      position_paused [of "run_events evs" t1 t2] s agrees_position [OF a, of now] f
      position_example [of t0 i] position_two_pauses [of t0 i]
    by blast
qed

theorem current_position_clamped_and_monotone_witness:
  "list_all duration_ok [(100, Start 180 None), (145, Pause)]
   \<and> is_paused (run_events [(100, Start 180 None), (145, Pause)])
   \<and> current_position 150 (run_events [(100, Start 180 None), (145, Pause)])
       = current_position 155 (run_events [(100, Start 180 None), (145, Pause)])
   \<and> 0 \<le> current_position 150 (run_events [(100, Start 180 None), (145, Pause)])
   \<and> current_position 150 (run_events [(100, Start 180 None), (145, Pause)])
       \<le> state_duration (run_events [(100, Start 180 None), (145, Pause)])
   \<and> current_position 150 (run_events [(100, Start 180 None), (145, Pause)])
       = spec_position (timeline_of [(100, Start 180 None), (145, Pause)]) 150
   \<and> spec_position (timeline_of [(100, Start 180 None), (145, Pause)]) 150 = 45
   \<and> list_all duration_ok [(100, Start 180 None)]
   \<and> is_playing (run_events [(100, Start 180 None)])
   \<and> \<not> is_paused (run_events [(100, Start 180 None)])
   \<and> current_position 110 (run_events [(100, Start 180 None)])
       \<le> current_position 120 (run_events [(100, Start 180 None)])
   \<and> list_all duration_ok [(100, Start 180 None), (130, Stop)]
   \<and> \<not> is_playing (run_events [(100, Start 180 None), (130, Stop)])
   \<and> current_position 200 (run_events [(100, Start 180 None), (130, Stop)]) = 0"
proof -
  let ?p = "[(100, Start 180 None), (145, Pause)] :: (real \<times> event) list"
  let ?r = "[(100, Start 180 None)] :: (real \<times> event) list"
  let ?s = "[(100, Start 180 None), (130, Stop)] :: (real \<times> event) list"
  have okp: "list_all duration_ok ?p" and okr: "list_all duration_ok ?r"
    and oks: "list_all duration_ok ?s"
    by simp_all
  have sp: "is_paused (run_events ?p)"
    by (simp add: run_events_def init_state_def start_def pause_def)
  have sr: "is_playing (run_events ?r)" "\<not> is_paused (run_events ?r)"
    by (simp_all add: run_events_def init_state_def start_def)
  have ss: "\<not> is_playing (run_events ?s)"
    by (simp add: run_events_def init_state_def start_def stop_def)
  have v: "spec_position (timeline_of ?p) 150 = 45"
    by (simp add: spec_position_def timeline_of_def init_timeline_def accumulated_paused_def
        py_int_def)
  have le: "(110::real) \<le> 120"
    by simp
  from current_position_clamped_and_monotone [OF okp, of 150 150 155 0 None] sp
  have p: "current_position 150 (run_events ?p) = current_position 155 (run_events ?p)"
    "0 \<le> current_position 150 (run_events ?p)"
    "current_position 150 (run_events ?p) \<le> state_duration (run_events ?p)"
    "current_position 150 (run_events ?p) = spec_position (timeline_of ?p) 150"
    by blast+
  from current_position_clamped_and_monotone [OF okr, of 110 110 120 0 None] sr le
  have r: "current_position 110 (run_events ?r) \<le> current_position 120 (run_events ?r)"
    by blast
  from current_position_clamped_and_monotone [OF oks, of 200 200 200 0 None] ss
  have s: "current_position 200 (run_events ?s) = 0"
    by blast
  from okp okr oks sp sr ss v p r s show ?thesis by (intro conjI)
qed

section \<open>Properties of the end-of-song handler\<close>

lemma on_song_end_after_window:
  "debounce \<le> now - last_manual_operation_time (player_state p) \<Longrightarrow>
     on_song_end play_song debounce now (Some p) = play_next_song play_song (Some p)"
  by (simp add: on_song_end_def)

lemma play_next_song_advances:
  "queue (player_queue p) \<noteq> [] \<Longrightarrow> queue_next (player_queue p) = (Some sng, q1) \<Longrightarrow>
     play_next_song play_song (Some p) = Some (play_song sng (p\<lparr>player_queue := q1\<rparr>))"
  by (simp add: play_next_song_def)

text \<open>
  Claim C5. \<^verbatim>\<open>mark_manual_operation\<close> stamps the clock reading \<open>tm\<close> (a Unix time, so
  positive) into the state. A natural-completion signal handled at a reading \<open>now\<close> with
  \<open>tm \<le> now\<close> and \<open>now - tm\<close> less than the debounce window is discarded: the handler
  returns with the player exactly as it was, so the queue is not advanced and
  \<^verbatim>\<open>_play_song\<close> is not called, whatever it would do. For example a callback 100 ms
  after the manual operation with a window of 500 ms is ignored.
\<close>

theorem completion_within_debounce_is_discarded:
  assumes "0 < tm" and "tm \<le> now" and "now - tm < debounce"
    and "last_manual_operation_time (player_state p) = tm"
  shows "last_manual_operation_time (mark_manual_operation tm s) = tm
    \<and> on_song_end play_song debounce now (Some p) = Some p
    \<and> on_song_end play_song debounce now
         (Some (p0\<lparr>player_state := mark_manual_operation tm (player_state p0)\<rparr>))
       = Some (p0\<lparr>player_state := mark_manual_operation tm (player_state p0)\<rparr>)
    \<and> on_song_end play_song (1 / 2) (tm + 1 / 10)
         (Some (p0\<lparr>player_state := mark_manual_operation tm (player_state p0)\<rparr>))
       = Some (p0\<lparr>player_state := mark_manual_operation tm (player_state p0)\<rparr>)"
  using assms by (simp add: on_song_end_def mark_manual_operation_def)

theorem completion_within_debounce_is_discarded_witness:
  "(0::real) < 1000 \<and> (1000::real) \<le> 1000 + 1 / 10 \<and> (1000 + 1 / 10) - 1000 < (1 / 2 :: real)
   \<and> last_manual_operation_time (player_state
         \<lparr>player_queue = queue_of [''a'', ''b''] 0 False,
          player_state = mark_manual_operation 1000 init_state\<rparr>) = 1000
   \<and> on_song_end (\<lambda>sng pl. pl\<lparr>player_state :=
           start (1000 + 1 / 10) (player_state pl) (duration sng) (Some (sid sng))\<rparr>)
         (1 / 2) (1000 + 1 / 10)
         (Some \<lparr>player_queue = queue_of [''a'', ''b''] 0 False,
                player_state = mark_manual_operation 1000 init_state\<rparr>)
       = Some \<lparr>player_queue = queue_of [''a'', ''b''] 0 False,
               player_state = mark_manual_operation 1000 init_state\<rparr>"
proof -
  let ?p = "\<lparr>player_queue = queue_of [''a'', ''b''] 0 False,
             player_state = mark_manual_operation 1000 init_state\<rparr>"
  have h: "(0::real) < 1000" "(1000::real) \<le> 1000 + 1 / 10"
    "(1000 + 1 / 10) - 1000 < (1 / 2 :: real)"
    by simp_all
  have m: "last_manual_operation_time (player_state ?p) = 1000"
    by (simp add: mark_manual_operation_def)
  from completion_within_debounce_is_discarded [OF h m] h m show ?thesis
    by blast
qed

section \<open>Properties of the cache manager\<close>

lemma keep_ids_window:
  assumes "length q = 10" "window_behind cm = 2" "window_ahead cm = 3"
  shows "keep_ids (update_keep_ids cm q 5) =
      {sid (q ! 3), sid (q ! 4), sid (q ! 5), sid (q ! 6), sid (q ! 7), sid (q ! 8)}"
proof -
  have r: "{3..8::int} = {3, 4, 5, 6, 7, 8}"
    by auto
  from assms show ?thesis
    by (simp add: update_keep_ids_def Let_def r)
qed

lemma keep_ids_preload: "keep_ids (preload_ahead fs cm q i) = keep_ids cm"
  by (simp add: preload_ahead_def)

lemma on_song_change_keep_ids:
  "q \<noteq> [] \<Longrightarrow> 0 \<le> i \<Longrightarrow>
   keep_ids (fst (on_song_change u cm fs q i)) = keep_ids (update_keep_ids cm q i)"
  by (simp add: on_song_change_def Let_def keep_ids_preload)

lemma on_song_change_files:
  "q \<noteq> [] \<Longrightarrow> 0 \<le> i \<Longrightarrow>
   snd (on_song_change u cm fs q i) =
     {file \<in> fs. \<not> (fst file = cache_dir cm \<and> is_opus (snd file)
        \<and> stem (snd file) \<notin> keep_ids (update_keep_ids cm q i) \<and> u file)}"
  by (auto simp: on_song_change_def Let_def cleanup_old_def update_keep_ids_def)

lemma rfind_opus: "rfind (CHR ''.'') (n @ ''.opus'') = Some (length n)"
  by (induction n) simp_all

lemma stem_opus: "n \<noteq> [] \<Longrightarrow> stem (n @ ''.opus'') = n"
  by (simp add: stem_def rfind_opus)

lemma is_opus_app: "is_opus (n @ ''.opus'')"
  by (simp add: is_opus_def)

text \<open>
  Claim C3. After \<^verbatim>\<open>on_song_change\<close> with window behind 2 and ahead 3 and the cursor at
  index 5 of a 10-item queue, the keep set is exactly the set of the identifiers of the
  songs at indices 3 to 8, and every file \<^verbatim>\<open>*.opus\<close> of the cache directory whose
  identifier (its stem) is outside that set is gone, in particular the cache file
  \<^verbatim>\<open><id>.opus\<close> of every identifier outside the set (a file whose \<^verbatim>\<open>unlink\<close> raises
  is logged and stays, so the deletion is stated for the files the operating system
  lets go). No file is created, and the cache files of the kept identifiers stay.
\<close>

theorem on_song_change_window_3_to_8:
  assumes "length q = 10" and "window_behind cm = 2" and "window_ahead cm = 3"
  shows "keep_ids (fst (on_song_change u cm fs q 5))
      = {sid (q ! 3), sid (q ! 4), sid (q ! 5), sid (q ! 6), sid (q ! 7), sid (q ! 8)}
    \<and> (\<forall>file \<in> fs. fst file = cache_dir cm \<and> is_opus (snd file)
          \<and> stem (snd file) \<notin> keep_ids (fst (on_song_change u cm fs q 5)) \<and> u file
          \<longrightarrow> file \<notin> snd (on_song_change u cm fs q 5))
    \<and> (\<forall>song_id. song_id \<noteq> [] \<and> get_path cm song_id \<in> fs
          \<and> song_id \<notin> keep_ids (fst (on_song_change u cm fs q 5))
          \<and> u (get_path cm song_id)
          \<longrightarrow> get_path cm song_id \<notin> snd (on_song_change u cm fs q 5))
    \<and> snd (on_song_change u cm fs q 5) \<subseteq> fs
    \<and> (\<forall>song_id \<in> keep_ids (fst (on_song_change u cm fs q 5)).
          song_id \<noteq> [] \<and> get_path cm song_id \<in> fs
          \<longrightarrow> get_path cm song_id \<in> snd (on_song_change u cm fs q 5))"
proof -
  from assms(1) have ne: "q \<noteq> []" by auto
  have k: "keep_ids (fst (on_song_change u cm fs q 5)) = keep_ids (update_keep_ids cm q 5)"
    using ne by (simp add: on_song_change_keep_ids)
  have f: "snd (on_song_change u cm fs q 5) =
      {file \<in> fs. \<not> (fst file = cache_dir cm \<and> is_opus (snd file)
         \<and> stem (snd file) \<notin> keep_ids (update_keep_ids cm q 5) \<and> u file)}"
    using ne by (simp add: on_song_change_files)
  have 1: "keep_ids (fst (on_song_change u cm fs q 5))
      = {sid (q ! 3), sid (q ! 4), sid (q ! 5), sid (q ! 6), sid (q ! 7), sid (q ! 8)}"
    using k keep_ids_window [OF assms] by simp
  have 2: "\<forall>file \<in> fs. fst file = cache_dir cm \<and> is_opus (snd file)
          \<and> stem (snd file) \<notin> keep_ids (fst (on_song_change u cm fs q 5)) \<and> u file
          \<longrightarrow> file \<notin> snd (on_song_change u cm fs q 5)"
    unfolding k f by simp
  have 3: "\<forall>song_id. song_id \<noteq> [] \<and> get_path cm song_id \<in> fs
          \<and> song_id \<notin> keep_ids (fst (on_song_change u cm fs q 5))
          \<and> u (get_path cm song_id)
          \<longrightarrow> get_path cm song_id \<notin> snd (on_song_change u cm fs q 5)"
    unfolding k f by (simp add: get_path_def stem_opus is_opus_app)
  have 4: "snd (on_song_change u cm fs q 5) \<subseteq> fs"
    unfolding f by blast
  have 5: "\<forall>song_id \<in> keep_ids (fst (on_song_change u cm fs q 5)).
          song_id \<noteq> [] \<and> get_path cm song_id \<in> fs
          \<longrightarrow> get_path cm song_id \<in> snd (on_song_change u cm fs q 5)"
    unfolding k f by (simp add: get_path_def stem_opus is_opus_app)
  from 1 2 3 4 5 show ?thesis by blast
qed

theorem on_song_change_window_3_to_8_witness:
  "length ten_songs = 10 \<and> window_behind window_cache = 2 \<and> window_ahead window_cache = 3
   \<and> keep_ids (fst (on_song_change (\<lambda>file. True) window_cache
        {(''cache'', ''s1.opus''), (''cache'', ''s4.opus''), (''cache'', ''s9.opus'')}
        ten_songs 5))
       = {''s3'', ''s4'', ''s5'', ''s6'', ''s7'', ''s8''}
   \<and> (''cache'', ''s1.opus'') \<notin> snd (on_song_change (\<lambda>file. True) window_cache
        {(''cache'', ''s1.opus''), (''cache'', ''s4.opus''), (''cache'', ''s9.opus'')}
        ten_songs 5)
   \<and> (''cache'', ''s9.opus'') \<notin> snd (on_song_change (\<lambda>file. True) window_cache
        {(''cache'', ''s1.opus''), (''cache'', ''s4.opus''), (''cache'', ''s9.opus'')}
        ten_songs 5)
   \<and> (''cache'', ''s4.opus'') \<in> snd (on_song_change (\<lambda>file. True) window_cache
        {(''cache'', ''s1.opus''), (''cache'', ''s4.opus''), (''cache'', ''s9.opus'')}
        ten_songs 5)"
proof -
  let ?fs = "{(''cache'', ''s1.opus''), (''cache'', ''s4.opus''), (''cache'', ''s9.opus'')}"
  let ?r = "on_song_change (\<lambda>file. True) window_cache ?fs ten_songs 5"
  have h: "length ten_songs = 10" "window_behind window_cache = 2"
    "window_ahead window_cache = 3"
    by (simp_all add: ten_songs_def window_cache_def)
  note t = on_song_change_window_3_to_8 [OF h, of "\<lambda>file. True" ?fs]
  from t have k: "keep_ids (fst ?r) = {''s3'', ''s4'', ''s5'', ''s6'', ''s7'', ''s8''}"
    by (simp add: ten_songs_def mk_song_def)
  have g: "get_path window_cache ''s1'' = (''cache'', ''s1.opus'')"
    "get_path window_cache ''s9'' = (''cache'', ''s9.opus'')"
    "get_path window_cache ''s4'' = (''cache'', ''s4.opus'')"
    by (simp_all add: get_path_def window_cache_def)
  from t have gone: "\<forall>song_id. song_id \<noteq> [] \<and> get_path window_cache song_id \<in> ?fs
          \<and> song_id \<notin> keep_ids (fst ?r) \<and> True
          \<longrightarrow> get_path window_cache song_id \<notin> snd ?r"
    by blast
  from t have kept: "\<forall>song_id \<in> keep_ids (fst ?r).
          song_id \<noteq> [] \<and> get_path window_cache song_id \<in> ?fs
          \<longrightarrow> get_path window_cache song_id \<in> snd ?r"
    by blast
  have "''s1'' \<notin> keep_ids (fst ?r)" "''s9'' \<notin> keep_ids (fst ?r)" "''s4'' \<in> keep_ids (fst ?r)"
    unfolding k by simp_all
  with gone [rule_format, of "''s1''"] gone [rule_format, of "''s9''"]
    kept [rule_format, of "''s4''"] g
  have "(''cache'', ''s1.opus'') \<notin> snd ?r" "(''cache'', ''s9.opus'') \<notin> snd ?r"
    "(''cache'', ''s4.opus'') \<in> snd ?r"
    by simp_all
  with h k show ?thesis by simp
qed

text \<open>
  Claim C10. \<^verbatim>\<open>on_song_change\<close> called with an empty song list, or with a negative
  current index, returns at its first test: the cache manager (its keep set and its
  table of prefetch tasks) and the files are what they were, so no file is deleted and
  no prefetch task is created.
\<close>

theorem on_song_change_empty_or_negative_is_noop:
  "on_song_change u cm fs [] i = (cm, fs)
   \<and> (i < 0 \<longrightarrow> on_song_change u cm fs q i = (cm, fs))
   \<and> (q = [] \<or> i < 0 \<longrightarrow>
        snd (on_song_change u cm fs q i) = fs
        \<and> preload_tasks (fst (on_song_change u cm fs q i)) = preload_tasks cm
        \<and> keep_ids (fst (on_song_change u cm fs q i)) = keep_ids cm)"
  by (auto simp: on_song_change_def)

theorem on_song_change_empty_or_negative_is_noop_witness:
  "on_song_change (\<lambda>file. True) window_cache {(''cache'', ''s1.opus'')} [] 0
     = (window_cache, {(''cache'', ''s1.opus'')})
   \<and> on_song_change (\<lambda>file. True) window_cache {(''cache'', ''s1.opus'')} ten_songs (- 1)
     = (window_cache, {(''cache'', ''s1.opus'')})
   \<and> (''cache'', ''s1.opus'')
       \<in> snd (on_song_change (\<lambda>file. True) window_cache {(''cache'', ''s1.opus'')}
            ten_songs (- 1))"
proof -
  have n: "(- 1 :: int) < 0"
    by simp
  from on_song_change_empty_or_negative_is_noop
    [of "\<lambda>file. True" window_cache "{(''cache'', ''s1.opus'')}" 0 ten_songs]
  have e: "on_song_change (\<lambda>file. True) window_cache {(''cache'', ''s1.opus'')} [] 0
      = (window_cache, {(''cache'', ''s1.opus'')})"
    by blast
  from on_song_change_empty_or_negative_is_noop
    [of "\<lambda>file. True" window_cache "{(''cache'', ''s1.opus'')}" "- 1" ten_songs] n
  have m: "on_song_change (\<lambda>file. True) window_cache {(''cache'', ''s1.opus'')}
        ten_songs (- 1) = (window_cache, {(''cache'', ''s1.opus'')})"
    by blast
  from e m show ?thesis by simp
qed

text \<open>
  Claim C8. \<^verbatim>\<open>put(id, path)\<close> is idempotent: a second call with the same identifier
  and path leaves the files as the first call left them. It is a no-op when source and
  target coincide or the target already exists; otherwise it moves an existing source
  file to the cache location of the identifier. When the file named by the path exists
  (and the operating system carries out the move), after the two calls the cache file
  of the identifier is present, and of source and target exactly that one file is
  present unless both already existed as different files, in which case nothing is
  touched.
\<close>

theorem put_is_idempotent:
  "put r cm (put r cm fs song_id source) song_id source = put r cm fs song_id source
   \<and> (source = get_path cm song_id \<or> get_path cm song_id \<in> fs \<longrightarrow>
        put r cm fs song_id source = fs)
   \<and> (source \<noteq> get_path cm song_id \<and> get_path cm song_id \<notin> fs \<and> source \<in> fs
        \<and> r source (get_path cm song_id) \<longrightarrow>
        put r cm fs song_id source = insert (get_path cm song_id) (fs - {source}))
   \<and> (source \<in> fs \<and> r source (get_path cm song_id) \<longrightarrow>
        get_path cm song_id \<in> put r cm (put r cm fs song_id source) song_id source)
   \<and> (source \<in> fs \<and> r source (get_path cm song_id)
        \<and> (source = get_path cm song_id \<or> get_path cm song_id \<notin> fs) \<longrightarrow>
        {source, get_path cm song_id} \<inter> put r cm (put r cm fs song_id source) song_id source
          = {get_path cm song_id})"
proof (intro conjI impI)
  show "put r cm (put r cm fs song_id source) song_id source = put r cm fs song_id source"
    by (simp add: put_def Let_def)
next
  assume "source = get_path cm song_id \<or> get_path cm song_id \<in> fs"
  then show "put r cm fs song_id source = fs"
    by (auto simp: put_def Let_def)
next
  assume "source \<noteq> get_path cm song_id \<and> get_path cm song_id \<notin> fs \<and> source \<in> fs
      \<and> r source (get_path cm song_id)"
  then show "put r cm fs song_id source = insert (get_path cm song_id) (fs - {source})"
    by (simp add: put_def Let_def)
next
  assume "source \<in> fs \<and> r source (get_path cm song_id)"
  then show "get_path cm song_id \<in> put r cm (put r cm fs song_id source) song_id source"
    by (auto simp: put_def Let_def)
next
  assume "source \<in> fs \<and> r source (get_path cm song_id)
      \<and> (source = get_path cm song_id \<or> get_path cm song_id \<notin> fs)"
  then show "{source, get_path cm song_id}
      \<inter> put r cm (put r cm fs song_id source) song_id source = {get_path cm song_id}"
    by (auto simp: put_def Let_def)
qed

theorem put_is_idempotent_witness:
  "put (\<lambda>a b. True) window_cache
     (put (\<lambda>a b. True) window_cache {(''tmp'', ''abc.opus'')} ''abc'' (''tmp'', ''abc.opus''))
     ''abc'' (''tmp'', ''abc.opus'')
     = {(''cache'', ''abc.opus'')}
   \<and> put (\<lambda>a b. True) window_cache {(''cache'', ''abc.opus''), (''tmp'', ''abc.opus'')}
       ''abc'' (''tmp'', ''abc.opus'')
     = {(''cache'', ''abc.opus''), (''tmp'', ''abc.opus'')}
   \<and> put (\<lambda>a b. True) window_cache {(''cache'', ''abc.opus'')}
       ''abc'' (''cache'', ''abc.opus'')
     = {(''cache'', ''abc.opus'')}"
proof -
  have g: "get_path window_cache ''abc'' = (''cache'', ''abc.opus'')"
    by (simp add: get_path_def window_cache_def)
  note moved = put_is_idempotent
    [of "\<lambda>a b. True" window_cache "{(''tmp'', ''abc.opus'')}" "''abc''" "(''tmp'', ''abc.opus'')"]
  from moved have twice: "put (\<lambda>a b. True) window_cache
     (put (\<lambda>a b. True) window_cache {(''tmp'', ''abc.opus'')} ''abc'' (''tmp'', ''abc.opus''))
     ''abc'' (''tmp'', ''abc.opus'')
     = put (\<lambda>a b. True) window_cache {(''tmp'', ''abc.opus'')} ''abc'' (''tmp'', ''abc.opus'')"
    by (rule conjunct1)
  from moved g have once: "put (\<lambda>a b. True) window_cache {(''tmp'', ''abc.opus'')} ''abc''
     (''tmp'', ''abc.opus'') = {(''cache'', ''abc.opus'')}"
    by simp
  note a = trans [OF twice once]
  from put_is_idempotent
    [of "\<lambda>a b. True" window_cache "{(''cache'', ''abc.opus''), (''tmp'', ''abc.opus'')}"
      "''abc''" "(''tmp'', ''abc.opus'')"] g
  have b: "put (\<lambda>a b. True) window_cache {(''cache'', ''abc.opus''), (''tmp'', ''abc.opus'')}
       ''abc'' (''tmp'', ''abc.opus'')
     = {(''cache'', ''abc.opus''), (''tmp'', ''abc.opus'')}"
    by simp
  from put_is_idempotent
    [of "\<lambda>a b. True" window_cache "{(''cache'', ''abc.opus'')}" "''abc''"
      "(''cache'', ''abc.opus'')"] g
  have c: "put (\<lambda>a b. True) window_cache {(''cache'', ''abc.opus'')}
       ''abc'' (''cache'', ''abc.opus'') = {(''cache'', ''abc.opus'')}"
    by simp
  from a b c show ?thesis by (intro conjI)
qed

section \<open>Properties of the downloader\<close>

lemma detect_loop_first:
  "i < length table \<Longrightarrow>
   list_ex (\<lambda>pattern. contains (str pattern) low) (snd (table ! i)) \<Longrightarrow>
   \<forall>j<i. \<not> list_ex (\<lambda>pattern. contains (str pattern) low) (snd (table ! j)) \<Longrightarrow>
   detect_loop table low = fst (table ! i)"
proof (induction table arbitrary: i)
  case Nil
  then show ?case by simp
next
  case (Cons entry table)
  obtain k pats where e: "entry = (k, pats)" by (cases entry)
  show ?case
  proof (cases i)
    case 0
    with Cons.prems e show ?thesis by simp
  next
    case (Suc n)
    with Cons.prems have no: "\<not> list_ex (\<lambda>pattern. contains (str pattern) low) pats"
      using e by fastforce
    from Suc Cons.prems have n: "n < length table"
      "list_ex (\<lambda>pattern. contains (str pattern) low) (snd (table ! n))"
      by simp_all
    from Suc Cons.prems(3)
    have "\<forall>j<n. \<not> list_ex (\<lambda>pattern. contains (str pattern) low) (snd (table ! j))"
      by fastforce
    from Cons.IH [OF n this] no e Suc show ?thesis by simp
  qed
qed

lemma detect_loop_least:
  "detect_loop table low \<noteq> ''unknown'' \<Longrightarrow>
   \<exists>i<length table. detect_loop table low = fst (table ! i)
      \<and> list_ex (\<lambda>pattern. contains (str pattern) low) (snd (table ! i))
      \<and> (\<forall>j<i. \<not> list_ex (\<lambda>pattern. contains (str pattern) low) (snd (table ! j)))"
proof (induction table)
  case Nil
  then show ?case by simp
next
  case (Cons entry table)
  obtain k pats where e: "entry = (k, pats)" by (cases entry)
  show ?case
  proof (cases "list_ex (\<lambda>pattern. contains (str pattern) low) pats")
    case True
    with e have "detect_loop (entry # table) low = fst ((entry # table) ! 0)
        \<and> list_ex (\<lambda>pattern. contains (str pattern) low) (snd ((entry # table) ! 0))
        \<and> (\<forall>j<0. \<not> list_ex (\<lambda>pattern. contains (str pattern) low)
              (snd ((entry # table) ! j)))"
      by simp
    then show ?thesis by blast
  next
    case False
    with e have same: "detect_loop (entry # table) low = detect_loop table low"
      by simp
    with Cons.prems have "detect_loop table low \<noteq> ''unknown''" by simp
    from Cons.IH [OF this] obtain i where i: "i < length table"
      "detect_loop table low = fst (table ! i)"
      "list_ex (\<lambda>pattern. contains (str pattern) low) (snd (table ! i))"
      "\<forall>j<i. \<not> list_ex (\<lambda>pattern. contains (str pattern) low) (snd (table ! j))"
      by blast
    have before: "\<forall>j<Suc i. \<not> list_ex (\<lambda>pattern. contains (str pattern) low)
        (snd ((entry # table) ! j))"
    proof (intro allI impI)
      fix j
      assume "j < Suc i"
      then show "\<not> list_ex (\<lambda>pattern. contains (str pattern) low)
          (snd ((entry # table) ! j))"
        using False e i(4) by (cases j) simp_all
    qed
    from i same have "Suc i < length (entry # table)
        \<and> detect_loop (entry # table) low = fst ((entry # table) ! Suc i)
        \<and> list_ex (\<lambda>pattern. contains (str pattern) low) (snd ((entry # table) ! Suc i))"
      by simp
    with before show ?thesis by blast
  qed
qed

lemma detect_loop_skip:
  "\<forall>pattern \<in> set (concat (map snd pre)). \<not> contains (str pattern) low \<Longrightarrow>
   detect_loop (pre @ rest) low = detect_loop rest low"
  by (induction pre) (auto simp: list_ex_iff)

lemma detect_loop_unknown:
  "\<forall>pattern \<in> set (concat (map snd table)). \<not> contains (str pattern) low \<Longrightarrow>
   detect_loop table low = ''unknown''"
  by (induction table) (auto simp: list_ex_iff)

text \<open>\<open>contains\<close> is the substring test.\<close>

lemma starts_with_iff: "starts_with p t \<longleftrightarrow> (\<exists>post. t = p @ post)"
  by (induction p t rule: starts_with.induct) auto

lemma contains_iff: "contains p t \<longleftrightarrow> (\<exists>pre post. t = pre @ p @ post)"
proof (induction t)
  case Nil
  then show ?case by simp
next
  case (Cons c cs)
  show ?case
  proof
    assume "contains p (c # cs)"
    then consider "starts_with p (c # cs)" | "contains p cs" by auto
    then show "\<exists>pre post. c # cs = pre @ p @ post"
    proof cases
      case 1
      then obtain post where "c # cs = p @ post" using starts_with_iff by blast
      then have "c # cs = [] @ p @ post" by simp
      then show ?thesis by blast
    next
      case 2
      with Cons obtain pre post where "cs = pre @ p @ post" by blast
      then have "c # cs = (c # pre) @ p @ post" by simp
      then show ?thesis by blast
    qed
  next
    assume "\<exists>pre post. c # cs = pre @ p @ post"
    then obtain pre post where e: "c # cs = pre @ p @ post" by blast
    show "contains p (c # cs)"
    proof (cases pre)
      case Nil
      with e have "starts_with p (c # cs)" using starts_with_iff by auto
      then show ?thesis by simp
    next
      case (Cons a pre')
      with e have "cs = pre' @ p @ post" by simp
      with Cons.IH have "contains p cs" by blast
      then show ?thesis by simp
    qed
  qed
qed

text \<open>
  The lower-casing of the characters outside ASCII is whatever the runtime does: with a
  table that sends the Kelvin sign to \<open>k\<close>, a message spelling "blocked it" with that sign
  is matched by the pattern, as in Python.
\<close>

lemma kelvin_sign_example:
  "detect_error_type (\<lambda>before c after. if c = 0x212A then [107] else [c])
     (str ''Private video: owner has bloc'' @ [0x212A] @ str ''ed it'') = ''copyright''"
  by (simp add: detect_error_type_def lower_def str_def ascii_lower_def ERROR_PATTERNS_def)

lemma patterns_before_private:
  "patterns_before ''private'' =
     [''sign in to confirm your age'', ''age-restricted'', ''inappropriate for some users'',
      ''copyright grounds'', ''blocked it'', ''content owner'', ''has blocked'',
      ''not available in your country'']"
  by (simp add: patterns_before_def ERROR_PATTERNS_def)

lemma private_first:
  assumes "contains (str ''private video'') (lower ul error_msg)"
    and "\<forall>pattern \<in> set (patterns_before ''private'').
           \<not> contains (str pattern) (lower ul error_msg)"
  shows "detect_error_type ul error_msg = ''private''"
proof -
  have split: "ERROR_PATTERNS = takeWhile (\<lambda>entry. fst entry \<noteq> ''private'') ERROR_PATTERNS
      @ dropWhile (\<lambda>entry. fst entry \<noteq> ''private'') ERROR_PATTERNS"
    by simp
  have d: "dropWhile (\<lambda>entry. fst entry \<noteq> ''private'') ERROR_PATTERNS =
     (''private'', [''private video'', ''sign in if you've been granted access''])
       # [(''unavailable'',
       [''video unavailable'', ''this video is unavailable'', ''no longer available'',
        ''has been removed'', ''account has been terminated''])]"
    by (simp add: ERROR_PATTERNS_def)
  from assms(2) have "detect_loop ERROR_PATTERNS (lower ul error_msg)
      = detect_loop (dropWhile (\<lambda>entry. fst entry \<noteq> ''private'') ERROR_PATTERNS)
          (lower ul error_msg)"
    unfolding patterns_before_def by (subst split) (rule detect_loop_skip)
  with assms(1) show ?thesis
    by (simp add: detect_error_type_def d)
qed

lemma message_private:
  "get_user_friendly_message ''private'' =
          [0x6B64, 0x5F71, 0x7247, 0x70BA, 0x79C1, 0x4EBA, 0x6216, 0x4E0D, 0x516C, 0x958B]"
  by (simp add: get_user_friendly_message_def messages_def)

lemma extract_info_failure:
  "returncode \<noteq> 0 \<Longrightarrow> stderr_str \<noteq> [] \<Longrightarrow>
   extract_info ul now parse_video (ProcExited returncode stdout_str stderr_str) u
     = ErrorResponse (create_error_response ul now stderr_str u)"
  by (simp add: extract_info_def)

lemma download_after_failed_extraction:
  assumes "extract_call u = ErrorResponse e"
  shows "snd (download ul now extract_call fetch dir fs u song_id) = fs"
    and "fst (fst (download ul now extract_call fetch dir fs u song_id)) = ErrorResponse e"
    and "download ul now extract_call fetch dir fs u None = ((ErrorResponse e, None), fs)"
    and "(dir, given @ ''.opus'') \<notin> fs \<Longrightarrow>
      download ul now extract_call fetch dir fs u (Some given)
        = ((ErrorResponse e, None), fs)"
  using assms by (simp_all add: download_def Let_def split: option.splits)

text \<open>
  Claim C6, as stated, classifies every error message that contains "private video"
  as \<^verbatim>\<open>private\<close>. The table is searched in its order and the first entry with a
  matching pattern decides: a message that also contains a pattern of an earlier entry
  gets that entry's reason and message.
\<close>

theorem private_video_with_earlier_pattern_counterexample:
  "contains (str ''private video'') (lower (\<lambda>before c after. [c]) (str ''Private video: the owner has blocked it''))
   \<and> detect_error_type (\<lambda>before c after. [c]) (str ''Private video: the owner has blocked it'') = ''copyright''
   \<and> error_type (create_error_response (\<lambda>before c after. [c]) 0 (str ''Private video: the owner has blocked it'') ''u'') \<noteq> ''private''
   \<and> display_message (create_error_response (\<lambda>before c after. [c]) 0 (str ''Private video: the owner has blocked it'') ''u'') \<noteq>
          [0x6B64, 0x5F71, 0x7247, 0x70BA, 0x79C1, 0x4EBA, 0x6216, 0x4E0D, 0x516C, 0x958B]"
  by (simp add: create_error_response_def detect_error_type_def lower_def str_def
      ascii_lower_def ERROR_PATTERNS_def get_user_friendly_message_def messages_def)

text \<open>
  Claim C6, amended. When extraction fails with an error message whose lower-cased text
  contains "private video" and none of the patterns of the earlier table entries
  (\<^verbatim>\<open>age_restricted\<close>, \<^verbatim>\<open>copyright\<close>, \<^verbatim>\<open>region_blocked\<close>), the result is an error
  response with reason code \<^verbatim>\<open>private\<close> and the user-facing message of that reason,
  and no local file is produced: \<^verbatim>\<open>download\<close> returns the error response, leaves
  the files as they were, and returns no path (unless the caller named a song id whose
  opus file was already cached). The reason is chosen by substring matching of the
  lower-cased message against the table, in table order, the first entry with a
  matching pattern deciding: if a pattern of entry \<open>i\<close> occurs in the message and no
  pattern of an entry before \<open>i\<close> does, the reason is the key of entry \<open>i\<close>; a reason
  other than \<^verbatim>\<open>unknown\<close> is the key of such a first matching entry; and the reason is
  \<^verbatim>\<open>unknown\<close> when no pattern of the table occurs. This holds for every message and
  whatever the lower-casing does to the characters outside ASCII.
\<close>

theorem private_video_is_classified_private:
  "(contains (str ''private video'') (lower ul error_msg)
      \<and> (\<forall>pattern \<in> set (patterns_before ''private'').
            \<not> contains (str pattern) (lower ul error_msg)) \<longrightarrow>
      detect_error_type ul error_msg = ''private''
      \<and> error_type (create_error_response ul now error_msg u) = ''private''
      \<and> \<not> success (create_error_response ul now error_msg u)
      \<and> display_message (create_error_response ul now error_msg u) =
          [0x6B64, 0x5F71, 0x7247, 0x70BA, 0x79C1, 0x4EBA, 0x6216, 0x4E0D, 0x516C, 0x958B])
   \<and> patterns_before ''private'' =
       [''sign in to confirm your age'', ''age-restricted'', ''inappropriate for some users'',
        ''copyright grounds'', ''blocked it'', ''content owner'', ''has blocked'',
        ''not available in your country'']
   \<and> (i < length ERROR_PATTERNS
        \<and> list_ex (\<lambda>pattern. contains (str pattern) (lower ul error_msg))
              (snd (ERROR_PATTERNS ! i))
        \<and> (\<forall>j<i. \<not> list_ex (\<lambda>pattern. contains (str pattern) (lower ul error_msg))
              (snd (ERROR_PATTERNS ! j))) \<longrightarrow>
        detect_error_type ul error_msg = fst (ERROR_PATTERNS ! i))
   \<and> (detect_error_type ul error_msg \<noteq> ''unknown'' \<longrightarrow>
        (\<exists>k<length ERROR_PATTERNS.
           detect_error_type ul error_msg = fst (ERROR_PATTERNS ! k)
           \<and> list_ex (\<lambda>pattern. contains (str pattern) (lower ul error_msg))
                (snd (ERROR_PATTERNS ! k))
           \<and> (\<forall>j<k. \<not> list_ex (\<lambda>pattern. contains (str pattern) (lower ul error_msg))
                 (snd (ERROR_PATTERNS ! j)))))
   \<and> ((\<forall>pattern \<in> set (concat (map snd ERROR_PATTERNS)).
          \<not> contains (str pattern) (lower ul error_msg)) \<longrightarrow>
        detect_error_type ul error_msg = ''unknown'')
   \<and> (returncode \<noteq> 0 \<and> error_msg \<noteq> [] \<longrightarrow>
        extract_info ul now parse_video (ProcExited returncode stdout_str error_msg) u
          = ErrorResponse (create_error_response ul now error_msg u))
   \<and> (extract_call u = ErrorResponse e \<longrightarrow>
        snd (download ul now extract_call fetch dir fs u song_id) = fs
        \<and> fst (fst (download ul now extract_call fetch dir fs u song_id)) = ErrorResponse e
        \<and> download ul now extract_call fetch dir fs u None = ((ErrorResponse e, None), fs)
        \<and> ((dir, given @ ''.opus'') \<notin> fs \<longrightarrow>
             download ul now extract_call fetch dir fs u (Some given)
               = ((ErrorResponse e, None), fs)))"
proof (intro conjI impI)
  assume a: "contains (str ''private video'') (lower ul error_msg)
      \<and> (\<forall>pattern \<in> set (patterns_before ''private'').
            \<not> contains (str pattern) (lower ul error_msg))"
  then show p: "detect_error_type ul error_msg = ''private''"
    by (simp add: private_first)
  then show "error_type (create_error_response ul now error_msg u) = ''private''"
    by (simp add: create_error_response_def Let_def)
  show "\<not> success (create_error_response ul now error_msg u)"
    by (simp add: create_error_response_def Let_def)
  from p show "display_message (create_error_response ul now error_msg u) =
          [0x6B64, 0x5F71, 0x7247, 0x70BA, 0x79C1, 0x4EBA, 0x6216, 0x4E0D, 0x516C, 0x958B]"
    by (simp add: create_error_response_def Let_def message_private)
next
  show "patterns_before ''private'' =
       [''sign in to confirm your age'', ''age-restricted'', ''inappropriate for some users'',
        ''copyright grounds'', ''blocked it'', ''content owner'', ''has blocked'',
        ''not available in your country'']"
    by (rule patterns_before_private)
next
  assume "i < length ERROR_PATTERNS
      \<and> list_ex (\<lambda>pattern. contains (str pattern) (lower ul error_msg))
            (snd (ERROR_PATTERNS ! i))
      \<and> (\<forall>j<i. \<not> list_ex (\<lambda>pattern. contains (str pattern) (lower ul error_msg))
            (snd (ERROR_PATTERNS ! j)))"
  then show "detect_error_type ul error_msg = fst (ERROR_PATTERNS ! i)"
    unfolding detect_error_type_def by (intro detect_loop_first) simp_all
next
  assume "detect_error_type ul error_msg \<noteq> ''unknown''"
  then show "\<exists>k<length ERROR_PATTERNS.
      detect_error_type ul error_msg = fst (ERROR_PATTERNS ! k)
      \<and> list_ex (\<lambda>pattern. contains (str pattern) (lower ul error_msg))
           (snd (ERROR_PATTERNS ! k))
      \<and> (\<forall>j<k. \<not> list_ex (\<lambda>pattern. contains (str pattern) (lower ul error_msg))
            (snd (ERROR_PATTERNS ! j)))"
    unfolding detect_error_type_def by (rule detect_loop_least)
next
  assume "\<forall>pattern \<in> set (concat (map snd ERROR_PATTERNS)).
      \<not> contains (str pattern) (lower ul error_msg)"
  then show "detect_error_type ul error_msg = ''unknown''"
    unfolding detect_error_type_def by (rule detect_loop_unknown)
next
  assume "returncode \<noteq> 0 \<and> error_msg \<noteq> []"
  then show "extract_info ul now parse_video (ProcExited returncode stdout_str error_msg) u
      = ErrorResponse (create_error_response ul now error_msg u)"
    by (simp add: extract_info_failure)
next
  assume e: "extract_call u = ErrorResponse e"
  then show "snd (download ul now extract_call fetch dir fs u song_id) = fs"
    by (rule download_after_failed_extraction)
  from e show "fst (fst (download ul now extract_call fetch dir fs u song_id))
      = ErrorResponse e"
    by (rule download_after_failed_extraction)
  from e show "download ul now extract_call fetch dir fs u None
      = ((ErrorResponse e, None), fs)"
    by (rule download_after_failed_extraction)
  assume "(dir, given @ ''.opus'') \<notin> fs"
  with e show "download ul now extract_call fetch dir fs u (Some given)
      = ((ErrorResponse e, None), fs)"
    by (simp add: download_after_failed_extraction)
qed

theorem private_video_is_classified_private_witness:
  "contains (str ''private video'') (lower (\<lambda>before c after. [c])
      (str ''ERROR: [youtube] abc: Private video. Sign in if you've been granted access to this video''))
   \<and> list_all (\<lambda>pattern. \<not> contains (str pattern) (lower (\<lambda>before c after. [c])
        (str ''ERROR: [youtube] abc: Private video. Sign in if you've been granted access to this video'')))
        (patterns_before ''private'')
   \<and> detect_error_type (\<lambda>before c after. [c])
        (str ''ERROR: [youtube] abc: Private video. Sign in if you've been granted access to this video'') = ''private''
   \<and> detect_error_type (\<lambda>before c after. [c])
        (str ''ERROR: [youtube] abc: Private video. Sign in if you've been granted access to this video'') = fst (ERROR_PATTERNS ! 3)
   \<and> display_message (create_error_response (\<lambda>before c after. [c]) 0
        (str ''ERROR: [youtube] abc: Private video. Sign in if you've been granted access to this video'') ''https://youtu.be/abc'') =
          [0x6B64, 0x5F71, 0x7247, 0x70BA, 0x79C1, 0x4EBA, 0x6216, 0x4E0D, 0x516C, 0x958B]
   \<and> download (\<lambda>before c after. [c]) 0
        (extract_info (\<lambda>before c after. [c]) 0 (\<lambda>json. None) (ProcExited 1 []
           (str ''ERROR: [youtube] abc: Private video. Sign in if you've been granted access to this video'')))
        (\<lambda>request_url song_id fs. (FetchNothing, fs)) ''cache'' {} ''https://youtu.be/abc'' None
       = ((ErrorResponse (create_error_response (\<lambda>before c after. [c]) 0
            (str ''ERROR: [youtube] abc: Private video. Sign in if you've been granted access to this video'') ''https://youtu.be/abc''), None), {})
   \<and> detect_error_type (\<lambda>before c after. [c]) (str ''connection reset by peer'') = ''unknown''"
proof -
  let ?ul = "(\<lambda>before c after. [c]) :: pystr \<Rightarrow> nat \<Rightarrow> pystr \<Rightarrow> pystr"
  let ?m = "(str ''ERROR: [youtube] abc: Private video. Sign in if you've been granted access to this video'')"
  let ?u = "''https://youtu.be/abc''"
  let ?ex = "extract_info ?ul 0 (\<lambda>json. None) (ProcExited 1 [] ?m)"
  have low: "lower ?ul ?m =
      (str ''error: [youtube] abc: private video. sign in if you've been granted access to this video'')"
    by (simp add: lower_def str_def ascii_lower_def)
  have c: "contains (str ''private video'') (lower ?ul ?m)"
    unfolding low by (simp add: str_def)
  have n: "\<forall>pattern \<in> set (patterns_before ''private'').
      \<not> contains (str pattern) (lower ?ul ?m)"
    unfolding low by (simp add: patterns_before_private str_def)
  have r: "(1::int) \<noteq> 0 \<and> ?m \<noteq> []"
    by (simp add: str_def)
  have i3: "3 < length ERROR_PATTERNS"
    "list_ex (\<lambda>pattern. contains (str pattern) (lower ?ul ?m)) (snd (ERROR_PATTERNS ! 3))"
    "fst (ERROR_PATTERNS ! 3) = ''private''"
    unfolding low by (simp_all add: ERROR_PATTERNS_def str_def)
  have b: "\<not> list_ex (\<lambda>pattern. contains (str pattern) (lower ?ul ?m))
      (snd (ERROR_PATTERNS ! 0))"
    "\<not> list_ex (\<lambda>pattern. contains (str pattern) (lower ?ul ?m))
      (snd (ERROR_PATTERNS ! 1))"
    "\<not> list_ex (\<lambda>pattern. contains (str pattern) (lower ?ul ?m))
      (snd (ERROR_PATTERNS ! 2))"
    unfolding low by (simp_all add: ERROR_PATTERNS_def str_def)
  have b3: "\<forall>j<3. \<not> list_ex (\<lambda>pattern. contains (str pattern) (lower ?ul ?m))
      (snd (ERROR_PATTERNS ! j))"
  proof (intro allI impI)
    fix j :: nat
    assume "j < 3"
    then have "j = 0 \<or> j = 1 \<or> j = 2" by arith
    with b show "\<not> list_ex (\<lambda>pattern. contains (str pattern) (lower ?ul ?m))
        (snd (ERROR_PATTERNS ! j))"
      by blast
  qed
  note t = private_video_is_classified_private
    [where ul = "?ul" and error_msg = "?m" and now = 0 and u = "?u" and i = 3
       and returncode = 1 and stdout_str = "[]"
       and parse_video = "\<lambda>json. None" and extract_call = "?ex"
       and e = "create_error_response ?ul 0 ?m ?u"
       and fetch = "\<lambda>request_url song_id fs. (FetchNothing, fs)" and dir = "''cache''"
       and fs = "{}" and song_id = None and given = "''abc''"]
  from t c n have p: "detect_error_type ?ul ?m = ''private''"
    "display_message (create_error_response ?ul 0 ?m ?u) =
          [0x6B64, 0x5F71, 0x7247, 0x70BA, 0x79C1, 0x4EBA, 0x6216, 0x4E0D, 0x516C, 0x958B]"
    by blast+
  from t i3 b3 have f: "detect_error_type ?ul ?m = fst (ERROR_PATTERNS ! 3)"
    by blast
  from t r have x: "?ex ?u = ErrorResponse (create_error_response ?ul 0 ?m ?u)"
    by blast
  from t x have d: "download ?ul 0 ?ex (\<lambda>request_url song_id fs. (FetchNothing, fs))
      ''cache'' {} ?u None = ((ErrorResponse (create_error_response ?ul 0 ?m ?u), None), {})"
    by blast
  have k: "\<forall>pattern \<in> set (concat (map snd ERROR_PATTERNS)).
      \<not> contains (str pattern) (lower ?ul (str ''connection reset by peer''))"
    by (simp add: ERROR_PATTERNS_def lower_def str_def ascii_lower_def)
  from private_video_is_classified_private
    [where ul = "?ul" and error_msg = "str ''connection reset by peer''" and now = 0
       and u = "?u" and i = 0 and returncode = 1 and stdout_str = "[]"
       and parse_video = "\<lambda>json. None" and extract_call = "?ex"
       and e = "create_error_response ?ul 0 ?m ?u"
       and fetch = "\<lambda>request_url song_id fs. (FetchNothing, fs)" and dir = "''cache''"
       and fs = "{}" and song_id = None and given = "''abc''"] k
  have q: "detect_error_type ?ul (str ''connection reset by peer'') = ''unknown''"
    by blast
  from n have l: "list_all (\<lambda>pattern. \<not> contains (str pattern) (lower ?ul ?m))
      (patterns_before ''private'')"
    by (simp only: list_all_iff)
  from c l p f d q show ?thesis by (intro conjI)
qed

end
